(* ===== verification/Prelude.thy ===== *)
theory Prelude
  imports Main "HOL-Library.Word" "HOL-Library.Monad_Syntax"
begin

unbundle bit_operations_syntax

text \<open>
  Shared vocabulary of the development: machine integers at the widths the Rust code uses,
  the panicking operations of the Rust slices and vectors, and the generic list lemmas.

  A Rust expression that may panic is an option here: \<open>Panic\<close> is \<open>None\<close>, a value is
  \<open>Ret v\<close>. A Rust \<open>Option\<close> inside such a computation is an ordinary HOL option, so a
  parser that rejects its input returns \<open>Ret None\<close> and never \<open>Panic\<close>.

  The code is modelled on a 64-bit target: \<open>usize\<close> is \<open>nat\<close>, the casts from \<open>u32\<close>
  and \<open>u16\<close> to \<open>usize\<close> are \<open>unat\<close>, and the casts back truncate (\<open>word_of_nat\<close>).
\<close>

section \<open>Types\<close>

type_synonym u8 = "8 word"
type_synonym u16 = "16 word"
type_synonym u32 = "32 word"
type_synonym usize = nat
type_synonym bytes = "u8 list"

type_synonym 'a may_panic = "'a option"

abbreviation (input) Panic :: "'a may_panic" where "Panic \<equiv> None"
abbreviation (input) Ret :: "'a \<Rightarrow> 'a may_panic" where "Ret \<equiv> Some"

named_theorems in_range \<open>slice and index operations whose bounds hold do not panic\<close>
named_theorems wire \<open>lengths and contents of encoded integers\<close>

section \<open>Slices and vectors\<close>

text \<open>\<open>xs[i]\<close> panics out of range.\<close>

definition index :: "'a list \<Rightarrow> usize \<Rightarrow> 'a may_panic" where
  "index xs i = (if i < length xs then Ret (xs ! i) else Panic)"

text \<open>\<open>&xs[a..b]\<close> panics unless \<open>a \<le> b \<le> xs.len()\<close>.\<close>

definition slice :: "'a list \<Rightarrow> usize \<Rightarrow> usize \<Rightarrow> 'a list may_panic" where
  "slice xs a b = (if a \<le> b \<and> b \<le> length xs then Ret (take (b - a) (drop a xs)) else Panic)"

definition slice_from :: "'a list \<Rightarrow> usize \<Rightarrow> 'a list may_panic" where
  "slice_from xs a = slice xs a (length xs)"

definition slice_to :: "'a list \<Rightarrow> usize \<Rightarrow> 'a list may_panic" where
  "slice_to xs b = slice xs 0 b"

text \<open>\<open>dst[a..b].copy_from_slice(src)\<close> panics on a bad range and on unequal lengths.\<close>

definition copy_into :: "'a list \<Rightarrow> usize \<Rightarrow> usize \<Rightarrow> 'a list \<Rightarrow> 'a list may_panic" where
  "copy_into dst a b src =
     (if a \<le> b \<and> b \<le> length dst \<and> length src = b - a
      then Ret (take a dst @ src @ drop b dst) else Panic)"

text \<open>\<open>xs.iter().position(p)\<close>: the index of the first element that satisfies \<open>p\<close>.\<close>

fun position :: "('a \<Rightarrow> bool) \<Rightarrow> 'a list \<Rightarrow> usize option" where
  "position p [] = None"
| "position p (x # xs) = (if p x then Some 0 else map_option Suc (position p xs))"

text \<open>\<open>a + b\<close> on \<open>u16\<close> with overflow checks: it panics on overflow.\<close>

definition u16_add :: "u16 \<Rightarrow> u16 \<Rightarrow> u16 may_panic" where
  "u16_add a b = (if unat a + unat b < 2 ^ 16 then Ret (a + b) else Panic)"

text \<open>\<open>a.checked_add(b)\<close> and \<open>a.saturating_sub(b)\<close> on \<open>usize\<close>, and
  \<open>a.saturating_sub(b)\<close> on \<open>u32\<close>.\<close>

definition usize_checked_add :: "usize \<Rightarrow> usize \<Rightarrow> usize option" where
  "usize_checked_add a b = (if a + b < 2 ^ 64 then Some (a + b) else None)"

definition usize_saturating_sub :: "usize \<Rightarrow> usize \<Rightarrow> usize" where
  "usize_saturating_sub a b = (if b \<le> a then a - b else 0)"

definition u32_saturating_sub :: "u32 \<Rightarrow> u32 \<Rightarrow> u32" where
  "u32_saturating_sub a b = (if b \<le> a then a - b else 0)"

text \<open>\<open>assert!(b)\<close> panics unless \<open>b\<close> holds. \<open>unwrap\<close> and \<open>expect\<close> panic on a missing value, so on
  an \<open>Option\<close> they are the option itself; on a \<open>Result\<close> they panic on an error.\<close>

definition assert_that :: "bool \<Rightarrow> unit may_panic" where
  "assert_that b = (if b then Ret () else Panic)"

definition unwrap_result :: "'e + 'a \<Rightarrow> 'a may_panic" where
  "unwrap_result res = (case res of Inl e \<Rightarrow> Panic | Inr a \<Rightarrow> Ret a)"

definition is_err :: "'e + 'a \<Rightarrow> bool" where
  "is_err res = (case res of Inl e \<Rightarrow> True | Inr a \<Rightarrow> False)"

lemma unwrap_result_simps [simp]:
  "unwrap_result (Inl e) = Panic" "unwrap_result (Inr a) = Ret a"
  "is_err (Inl e)" "\<not> is_err (Inr a)"
  by (simp_all add: unwrap_result_def is_err_def)

lemma index_in_range [in_range]: "i < length xs \<Longrightarrow> index xs i = Ret (xs ! i)"
  by (simp add: index_def)

lemma slice_in_range [in_range]:
  "a \<le> b \<Longrightarrow> b \<le> length xs \<Longrightarrow> slice xs a b = Ret (take (b - a) (drop a xs))"
  by (simp add: slice_def)

lemma slice_from_in_range [in_range]: "a \<le> length xs \<Longrightarrow> slice_from xs a = Ret (drop a xs)"
  by (simp add: slice_from_def slice_def)

lemma slice_to_in_range [in_range]: "b \<le> length xs \<Longrightarrow> slice_to xs b = Ret (take b xs)"
  by (simp add: slice_to_def slice_def)

lemma copy_into_in_range [in_range]:
  "a + length src = b \<Longrightarrow> b \<le> length dst \<Longrightarrow> copy_into dst a b src = Ret (take a dst @ src @ drop b dst)"
  by (auto simp: copy_into_def)

lemma u16_add_in_range [in_range]: "unat a + unat b < 2 ^ 16 \<Longrightarrow> u16_add a b = Ret (a + b)"
  by (simp add: u16_add_def)

lemma usize_saturating_sub_eq [simp]: "usize_saturating_sub a b = a - b"
  by (simp add: usize_saturating_sub_def)

section \<open>Finding a terminator\<close>

lemma position_None_iff: "position p xs = None \<longleftrightarrow> (\<forall>x \<in> set xs. \<not> p x)"
  by (induction xs) auto

lemma position_Some_less: "position p xs = Some i \<Longrightarrow> i < length xs"
  by (induction xs arbitrary: i) (auto split: if_splits)

lemma position_Some_split:
  "position p xs = Some i \<Longrightarrow>
     xs = take i xs @ xs ! i # drop (Suc i) xs \<and> p (xs ! i) \<and> (\<forall>x \<in> set (take i xs). \<not> p x)"
  by (induction xs arbitrary: i) (auto split: if_splits)

lemma position_append:
  "\<forall>x \<in> set xs. \<not> p x \<Longrightarrow> p y \<Longrightarrow> position p (xs @ y # ys) = Some (length xs)"
  by (induction xs) auto

section \<open>Counting and updating masks\<close>

definition count_true :: "bool list \<Rightarrow> nat" where
  "count_true bs = length (filter id bs)"

lemma count_true_le: "count_true bs \<le> length bs"
  by (simp add: count_true_def)

lemma count_true_replicate_False [simp]: "count_true (replicate n False) = 0"
  by (simp add: count_true_def)

lemma count_true_card: "count_true bs = card {i. i < length bs \<and> bs ! i}"
  by (simp add: count_true_def length_filter_conv_card)

lemma count_true_update:
  assumes "i < length bs" and "\<not> bs ! i"
  shows "count_true (bs[i := True]) = Suc (count_true bs)"
proof -
  have "{j. j < length (bs[i := True]) \<and> bs[i := True] ! j} = insert i {j. j < length bs \<and> bs ! j}"
    using assms by (auto simp: nth_list_update)
  then show ?thesis using assms by (simp add: count_true_card)
qed

lemma count_true_full: "count_true bs = length bs \<longleftrightarrow> (\<forall>i < length bs. bs ! i)"
proof
  assume "count_true bs = length bs"
  then have "{i. i < length bs \<and> bs ! i} = {..<length bs}"
    by (intro card_subset_eq) (auto simp: count_true_card)
  then show "\<forall>i < length bs. bs ! i" by blast
next
  assume "\<forall>i < length bs. bs ! i"
  then have "{i. i < length bs \<and> bs ! i} = {..<length bs}" by auto
  then show "count_true bs = length bs" by (simp add: count_true_card)
qed

lemma count_true_less:
  assumes "i < length bs" and "\<not> bs ! i"
  shows "count_true bs < length bs"
  using assms count_true_le [of bs] count_true_full [of bs] by (metis le_neq_implies_less)

section \<open>Truncating casts\<close>

lemma unat_u32_of_nat [simp]: "unat (word_of_nat n :: u32) = n mod 2 ^ 32"
  by (simp add: unat_of_nat)

lemma unat_u16_of_nat [simp]: "unat (word_of_nat n :: u16) = n mod 2 ^ 16"
  by (simp add: unat_of_nat)

lemma unat_u16_less: "unat (w :: u16) < 65536"
  using unsigned_less [of w] by simp

lemma unat_u32_less: "unat (w :: u32) < 4294967296"
  using unsigned_less [of w] by simp

lemma snd_eq_iff: "snd p = b \<longleftrightarrow> (\<exists>a. p = (a, b))"
  by (cases p) auto

end
