(* ===== verification/Rust_Str.thy ===== *)
theory Rust_Str
  imports Prelude
begin

text \<open>
  The part of the Rust standard library on strings that the code uses: UTF-8 validation
  (\<open>std::str::from_utf8\<close>, \<open>as_bytes\<close>), \<open>strip_prefix\<close>, \<open>contains\<close>, \<open>split_once\<close>,
  \<open>rsplit_once\<close>, \<open>split\<close>, \<open>trim\<close>, and the \<open>FromStr\<close> instances of the unsigned
  integers and of \<open>Ipv4Addr\<close>.

  A Rust \<open>str\<close> is a \<open>string\<close> whose characters are the bytes of its UTF-8 encoding, so
  \<open>length\<close> is Rust's \<open>len()\<close>. Every \<open>str\<close> the code can hold satisfies \<open>valid_str\<close>.
\<close>

section \<open>Bytes and UTF-8\<close>

definition byte_of_char :: "char \<Rightarrow> u8" where
  "byte_of_char c = word_of_nat (of_char c)"

definition char_of_byte :: "u8 \<Rightarrow> char" where
  "char_of_byte b = char_of (unat b)"

definition as_bytes :: "string \<Rightarrow> bytes" where
  "as_bytes s = map byte_of_char s"

definition str_of_bytes :: "bytes \<Rightarrow> string" where
  "str_of_bytes bs = map char_of_byte bs"

definition in_span :: "u8 \<Rightarrow> u8 \<Rightarrow> u8 \<Rightarrow> bool" where
  "in_span lo hi b \<longleftrightarrow> lo \<le> b \<and> b \<le> hi"

definition cont :: "u8 \<Rightarrow> bool" where
  "cont b \<longleftrightarrow> in_span 0x80 0xBF b"

text \<open>The second byte that may follow the lead byte \<open>b\<close> of a 3- or 4-byte sequence.\<close>

definition second_ok :: "u8 \<Rightarrow> u8 \<Rightarrow> bool" where
  "second_ok b c =
     (if b = 0xE0 then in_span 0xA0 0xBF c
      else if b = 0xED then in_span 0x80 0x9F c
      else if b = 0xF0 then in_span 0x90 0xBF c
      else if b = 0xF4 then in_span 0x80 0x8F c
      else cont c)"

fun valid_utf8 :: "bytes \<Rightarrow> bool" where
  "valid_utf8 [] = True"
| "valid_utf8 (b # bs) =
     (if b < 0x80 then valid_utf8 bs
      else if in_span 0xC2 0xDF b then
        (case bs of c # r \<Rightarrow> cont c \<and> valid_utf8 r | _ \<Rightarrow> False)
      else if in_span 0xE0 0xEF b then
        (case bs of c # d # r \<Rightarrow> second_ok b c \<and> cont d \<and> valid_utf8 r | _ \<Rightarrow> False)
      else if in_span 0xF0 0xF4 b then
        (case bs of c # d # e # r \<Rightarrow> second_ok b c \<and> cont d \<and> cont e \<and> valid_utf8 r | _ \<Rightarrow> False)
      else False)"

definition valid_str :: "string \<Rightarrow> bool" where
  "valid_str s \<longleftrightarrow> valid_utf8 (as_bytes s)"

text \<open>\<open>std::str::from_utf8(bs).ok()\<close>\<close>

definition from_utf8 :: "bytes \<Rightarrow> string option" where
  "from_utf8 bs = (if valid_utf8 bs then Some (str_of_bytes bs) else None)"

lemma char_of_byte_of_char [simp]: "char_of_byte (byte_of_char c) = c"
  by (simp add: char_of_byte_def byte_of_char_def unat_of_nat)

lemma byte_of_char_of_byte [simp]: "byte_of_char (char_of_byte b) = b"
proof -
  have "unat b < 256" using unsigned_less [of b] by simp
  then show ?thesis by (simp add: char_of_byte_def byte_of_char_def)
qed

lemma byte_of_char_inject [simp]: "byte_of_char c = byte_of_char d \<longleftrightarrow> c = d"
  by (metis char_of_byte_of_char)

lemma str_of_bytes_as_bytes [simp]: "str_of_bytes (as_bytes s) = s"
  by (simp add: str_of_bytes_def as_bytes_def comp_def)

lemma as_bytes_str_of_bytes [simp]: "as_bytes (str_of_bytes bs) = bs"
  by (simp add: str_of_bytes_def as_bytes_def comp_def)

lemma length_as_bytes [simp]: "length (as_bytes s) = length s"
  by (simp add: as_bytes_def)

lemma length_str_of_bytes [simp]: "length (str_of_bytes bs) = length bs"
  by (simp add: str_of_bytes_def)

lemma as_bytes_append [simp]: "as_bytes (s @ t) = as_bytes s @ as_bytes t"
  by (simp add: as_bytes_def)

lemma as_bytes_inject [simp]: "as_bytes s = as_bytes t \<longleftrightarrow> s = t"
  by (metis str_of_bytes_as_bytes)

lemma byte_of_char_zero [simp]: "byte_of_char CHR 0x00 = 0"
  by (simp add: byte_of_char_def)

lemma zero_in_as_bytes [simp]: "0 \<in> set (as_bytes s) \<longleftrightarrow> CHR 0x00 \<in> set s"
proof
  assume "0 \<in> set (as_bytes s)"
  then obtain c where c: "c \<in> set s" "byte_of_char c = byte_of_char CHR 0x00"
    by (auto simp: as_bytes_def)
  from c(2) have "c = CHR 0x00" by (simp only: byte_of_char_inject)
  with c(1) show "CHR 0x00 \<in> set s" by simp
next
  assume "CHR 0x00 \<in> set s"
  then have "byte_of_char CHR 0x00 \<in> byte_of_char ` set s" by (rule imageI)
  then show "0 \<in> set (as_bytes s)" by (simp add: as_bytes_def)
qed

lemma from_utf8_Some_iff: "from_utf8 bs = Some s \<longleftrightarrow> valid_str s \<and> bs = as_bytes s"
  by (auto simp: from_utf8_def valid_str_def split: if_splits)

lemma from_utf8_as_bytes [simp]: "valid_str s \<Longrightarrow> from_utf8 (as_bytes s) = Some s"
  by (simp add: from_utf8_Some_iff)

lemma valid_utf8_append: "valid_utf8 bs \<Longrightarrow> valid_utf8 (bs @ cs) = valid_utf8 cs"
proof (induction bs rule: valid_utf8.induct)
  case 1
  then show ?case by simp
next
  case (2 b bs)
  consider (one) "b < 0x80"
    | (two) "\<not> b < 0x80" "in_span 0xC2 0xDF b"
    | (three) "\<not> b < 0x80" "\<not> in_span 0xC2 0xDF b" "in_span 0xE0 0xEF b"
    | (four) "\<not> b < 0x80" "\<not> in_span 0xC2 0xDF b" "\<not> in_span 0xE0 0xEF b" "in_span 0xF0 0xF4 b"
    using "2.prems" by (simp split: if_splits)
  then show ?case
  proof cases
    case one
    with "2.IH"(1) "2.prems" show ?thesis by simp
  next
    case two
    with "2.prems" obtain c r where "bs = c # r" by (cases bs) auto
    with two "2.IH"(2) "2.prems" show ?thesis by simp
  next
    case three
    with "2.prems" obtain c d r where "bs = c # d # r" by (auto split: list.splits)
    with three "2.IH"(3) "2.prems" show ?thesis by simp
  next
    case four
    with "2.prems" obtain c d e r where "bs = c # d # e # r" by (auto split: list.splits)
    with four "2.IH"(4) "2.prems" show ?thesis by simp
  qed
qed

declare valid_utf8.simps(2) [simp del]

lemma valid_str_append: "valid_str s \<Longrightarrow> valid_str (s @ t) = valid_str t"
  by (simp add: valid_str_def valid_utf8_append)

lemma valid_str_Nil [simp]: "valid_str []"
  by (simp add: valid_str_def as_bytes_def)

section \<open>Searching and splitting\<close>

definition contains :: "char \<Rightarrow> string \<Rightarrow> bool" where
  "contains c s \<longleftrightarrow> c \<in> set s"

definition strip_prefix :: "string \<Rightarrow> string \<Rightarrow> string option" where
  "strip_prefix p s = (if take (length p) s = p then Some (drop (length p) s) else None)"

definition split_once :: "char \<Rightarrow> string \<Rightarrow> (string \<times> string) option" where
  "split_once c s = map_option (\<lambda>i. (take i s, drop (Suc i) s)) (position (\<lambda>x. x = c) s)"

definition rsplit_once :: "char \<Rightarrow> string \<Rightarrow> (string \<times> string) option" where
  "rsplit_once c s = map_option (\<lambda>(a, b). (rev b, rev a)) (split_once c (rev s))"

fun split_char :: "char \<Rightarrow> string \<Rightarrow> string list" where
  "split_char c [] = [[]]"
| "split_char c (x # xs) =
     (if x = c then [] # split_char c xs
      else (case split_char c xs of [] \<Rightarrow> [[x]] | p # ps \<Rightarrow> (x # p) # ps))"

lemma strip_prefix_Some_iff: "strip_prefix p s = Some t \<longleftrightarrow> s = p @ t"
  by (auto simp: strip_prefix_def) (metis append_take_drop_id)

lemma strip_prefix_append [simp]: "strip_prefix p (p @ t) = Some t"
  by (simp add: strip_prefix_Some_iff)

lemma split_once_append: "c \<notin> set s \<Longrightarrow> split_once c (s @ c # t) = Some (s, t)"
  by (subst split_once_def, subst position_append) auto

lemma split_once_None: "split_once c s = None \<longleftrightarrow> c \<notin> set s"
  by (auto simp: split_once_def position_None_iff)

lemma split_once_Some_iff: "split_once c s = Some (a, b) \<longleftrightarrow> c \<notin> set a \<and> s = a @ c # b"
proof
  assume "split_once c s = Some (a, b)"
  then obtain i where i: "position (\<lambda>x. x = c) s = Some i" "a = take i s" "b = drop (Suc i) s"
    by (auto simp: split_once_def)
  with position_Some_split [OF i(1)] show "c \<notin> set a \<and> s = a @ c # b" by auto
qed (auto simp: split_once_append)

lemma rsplit_once_append: "c \<notin> set t \<Longrightarrow> rsplit_once c (s @ c # t) = Some (s, t)"
  by (simp add: rsplit_once_def split_once_append)

lemma split_char_not_Nil [simp]: "split_char c s \<noteq> []"
  by (cases s) (auto split: list.splits)

lemma split_char_no_sep: "c \<notin> set s \<Longrightarrow> split_char c s = [s]"
  by (induction s) auto

lemma split_char_append: "c \<notin> set s \<Longrightarrow> split_char c (s @ c # t) = s # split_char c t"
  by (induction s) auto

section \<open>Trimming white space\<close>

text \<open>The UTF-8 encodings of the characters with the Unicode property White_Space.\<close>

definition white_space :: "string list" where
  "white_space =
     [[CHR 0x09], [CHR 0x0A], [CHR 0x0B], [CHR 0x0C], [CHR 0x0D], [CHR 0x20],
      [CHR 0xC2, CHR 0x85], [CHR 0xC2, CHR 0xA0], [CHR 0xE1, CHR 0x9A, CHR 0x80]]
     @ map (\<lambda>c. [CHR 0xE2, CHR 0x80, c])
         [CHR 0x80, CHR 0x81, CHR 0x82, CHR 0x83, CHR 0x84, CHR 0x85, CHR 0x86, CHR 0x87,
          CHR 0x88, CHR 0x89, CHR 0x8A, CHR 0xA8, CHR 0xA9, CHR 0xAF]
     @ [[CHR 0xE2, CHR 0x81, CHR 0x9F], [CHR 0xE3, CHR 0x80, CHR 0x80]]"

function strip_any :: "string list \<Rightarrow> string \<Rightarrow> string" where
  "strip_any ws s =
     (case find (\<lambda>w. w \<noteq> [] \<and> take (length w) s = w) ws of
        None \<Rightarrow> s
      | Some w \<Rightarrow> strip_any ws (drop (length w) s))"
  by pat_completeness auto
termination
proof (relation "measure (\<lambda>(ws, s). length s)")
  fix ws :: "string list" and s w :: string
  assume "find (\<lambda>w. w \<noteq> [] \<and> take (length w) s = w) ws = Some w"
  then have "w \<noteq> []" and "take (length w) s = w" by (auto simp: find_Some_iff)
  then have "s \<noteq> []" by auto
  with \<open>w \<noteq> []\<close> show "((ws, drop (length w) s), (ws, s)) \<in> measure (\<lambda>(ws, s). length s)"
    by simp
qed simp

declare strip_any.simps [simp del]

definition trim :: "string \<Rightarrow> string" where
  "trim s = rev (strip_any (map rev white_space) (rev (strip_any white_space s)))"

lemma strip_any_None:
  "find (\<lambda>w. w \<noteq> [] \<and> take (length w) s = w) ws = None \<Longrightarrow> strip_any ws s = s"
  by (simp add: strip_any.simps)

lemma strip_any_stop:
  "(\<And>w. w \<in> set ws \<Longrightarrow> w \<noteq> [] \<Longrightarrow> hd w \<noteq> c) \<Longrightarrow> strip_any ws (c # s) = c # s"
  by (rule strip_any_None) (fastforce simp: find_None_iff neq_Nil_conv)

lemma strip_any_blanks:
  assumes "\<And>t. find (\<lambda>w. w \<noteq> [] \<and> take (length w) (CHR '' '' # t) = w) ws = Some [CHR '' '']"
  shows "strip_any ws (replicate n CHR '' '' @ s) = strip_any ws s"
  by (induction n) (simp_all add: strip_any.simps [of ws "CHR '' '' # t" for t] assms)

lemma trim_blanks:
  assumes "32 < (of_char c :: nat)" "(of_char c :: nat) < 128"
    and "32 < (of_char d :: nat)" "(of_char d :: nat) < 128" and "s = c # t" and "s = t' @ [d]"
  shows "trim (replicate m CHR '' '' @ s @ replicate n CHR '' '') = s"
proof -
  have not_first: "hd w \<noteq> c" if "w \<in> set white_space" for w
    using that assms(1,2) by (auto simp: white_space_def)
  have not_last: "hd w \<noteq> d" if "w \<in> set (map rev white_space)" for w
    using that assms(3,4) by (auto simp: white_space_def)
  have "strip_any white_space (replicate m CHR '' '' @ s @ replicate n CHR '' '') =
      s @ replicate n CHR '' ''"
    using strip_any_stop [of white_space c] not_first assms(5)
    by (subst strip_any_blanks) (simp_all add: white_space_def)
  moreover have "strip_any (map rev white_space) (replicate n CHR '' '' @ rev s) = rev s"
    using strip_any_stop [of "map rev white_space" d] not_last assms(6)
    by (subst strip_any_blanks) (simp_all add: white_space_def)
  ultimately show ?thesis by (simp add: trim_def)
qed

section \<open>Parsing unsigned integers\<close>

datatype ParseIntError = EmptyInt | InvalidDigit | PosOverflow

definition is_digit :: "char \<Rightarrow> bool" where
  "is_digit c \<longleftrightarrow> 48 \<le> (of_char c :: nat) \<and> (of_char c :: nat) \<le> 57"

definition digit_value :: "char \<Rightarrow> nat" where
  "digit_value c = of_char c - 48"

text \<open>
  The digit loop of \<open>from_str_radix(10)\<close> for an unsigned type whose values are below
  \<open>limit\<close>: an invalid digit is reported before an overflow at the same position.
\<close>

fun parse_digits :: "nat \<Rightarrow> nat \<Rightarrow> string \<Rightarrow> ParseIntError + nat" where
  "parse_digits limit acc [] = Inr acc"
| "parse_digits limit acc (c # cs) =
     (if \<not> is_digit c then Inl InvalidDigit
      else if acc * 10 < limit \<and> acc * 10 + digit_value c < limit
      then parse_digits limit (acc * 10 + digit_value c) cs
      else Inl PosOverflow)"

definition parse_uint :: "nat \<Rightarrow> string \<Rightarrow> ParseIntError + nat" where
  "parse_uint limit s =
     (case s of
        [] \<Rightarrow> Inl EmptyInt
      | c # cs \<Rightarrow>
          if (c = CHR ''+'' \<or> c = CHR ''-'') \<and> cs = [] then Inl InvalidDigit
          else if c = CHR ''+'' then parse_digits limit 0 cs
          else parse_digits limit 0 s)"

definition digit_char :: "nat \<Rightarrow> char" where
  "digit_char d = char_of (48 + d)"

fun decimal :: "nat \<Rightarrow> string" where
  "decimal n = (if n < 10 then [digit_char n] else decimal (n div 10) @ [digit_char (n mod 10)])"

declare decimal.simps [simp del]

lemma is_digit_digit_char [simp]: "d < 10 \<Longrightarrow> is_digit (digit_char d)"
  by (simp add: is_digit_def digit_char_def)

lemma digit_value_digit_char [simp]: "d < 10 \<Longrightarrow> digit_value (digit_char d) = d"
  by (simp add: digit_value_def digit_char_def)

lemma decimal_not_Nil [simp]: "decimal n \<noteq> []"
  by (subst decimal.simps) simp

lemma decimal_digits: "c \<in> set (decimal n) \<Longrightarrow> is_digit c"
proof (induction n rule: decimal.induct)
  case (1 n)
  show ?case
  proof (cases "n < 10")
    case True
    with 1 show ?thesis by (subst (asm) decimal.simps) simp
  next
    case False
    with 1 show ?thesis by (subst (asm) decimal.simps) auto
  qed
qed

lemma parse_digits_bound: "parse_digits limit acc s = Inr v \<Longrightarrow> acc < limit \<Longrightarrow> v < limit"
  by (induction s arbitrary: acc) (auto split: if_splits)

lemma parse_digits_append:
  "parse_digits limit acc (s @ t) =
     (case parse_digits limit acc s of Inl e \<Rightarrow> Inl e | Inr a \<Rightarrow> parse_digits limit a t)"
  by (induction s arbitrary: acc) auto

lemma parse_digits_decimal: "n < limit \<Longrightarrow> parse_digits limit 0 (decimal n) = Inr n"
proof (induction n rule: decimal.induct)
  case (1 n)
  show ?case
  proof (cases "n < 10")
    case True
    with 1 show ?thesis by (subst decimal.simps) simp
  next
    case False
    with 1 have "parse_digits limit 0 (decimal (n div 10)) = Inr (n div 10)" by simp
    with False 1 show ?thesis
      by (subst decimal.simps) (simp add: parse_digits_append div_mult_mod_eq)
  qed
qed

lemma not_digit_sign [simp]: "\<not> is_digit CHR ''+''" "\<not> is_digit CHR ''-''"
  by (simp_all add: is_digit_def)

theorem parse_uint_decimal: "n < limit \<Longrightarrow> parse_uint limit (decimal n) = Inr n"
proof -
  assume n: "n < limit"
  obtain c cs where d: "decimal n = c # cs" by (cases "decimal n") auto
  then have "is_digit c" using decimal_digits [of c n] by simp
  then have "c \<noteq> CHR ''+''" "c \<noteq> CHR ''-''" by auto
  with parse_digits_decimal [OF n] d show ?thesis by (simp add: parse_uint_def)
qed

lemma parse_uint_bound: "parse_uint limit s = Inr v \<Longrightarrow> 0 < limit \<Longrightarrow> v < limit"
  by (auto simp: parse_uint_def split: list.splits if_splits dest: parse_digits_bound)

text \<open>The decimal numeral of a number below 1000 has at most three digits and no leading zero.\<close>

lemma decimal_small: "n < 10 \<Longrightarrow> decimal n = [digit_char n]"
  by (simp add: decimal.simps)

lemma decimal_large: "10 \<le> n \<Longrightarrow> decimal n = decimal (n div 10) @ [digit_char (n mod 10)]"
  by (subst decimal.simps) simp

lemma length_decimal: "n < 1000 \<Longrightarrow> length (decimal n) \<le> 3"
proof -
  assume n: "n < 1000"
  consider "n < 10" | "10 \<le> n" "n div 10 < 10" | "10 \<le> n" "10 \<le> n div 10" by linarith
  then show ?thesis
  proof cases
    case 3
    have "n div 10 div 10 < 10" using n by simp
    with 3 show ?thesis by (simp add: decimal_large decimal_small)
  qed (simp_all add: decimal_large decimal_small)
qed

lemma hd_decimal: "0 < n \<Longrightarrow> hd (decimal n) \<noteq> CHR ''0''"
proof (induction n rule: decimal.induct)
  case (1 n)
  show ?case
  proof (cases "n < 10")
    case True
    have "digit_value (digit_char n) \<noteq> digit_value CHR ''0''"
      using True 1 by (simp add: digit_value_def [of "CHR ''0''"])
    then have "digit_char n \<noteq> CHR ''0''" by metis
    with True show ?thesis by (simp add: decimal_small)
  next
    case False
    with 1 show ?thesis by (simp add: decimal_large)
  qed
qed

end
