(* ===== verification/Interfaces.thy ===== *)
theory Interfaces
  imports Prelude
begin

text \<open>
  The contracts between the components, as locales. A component that provides an interface
  interprets its locale on its own definitions; the lemmas proved here once then hold of it.

  \<open>codec\<close>: a decoder that accepts exactly the encodings of the well-formed values (the wire
  protocol, the key-expression mapping). \<open>reliable_step\<close>: a step that never panics, keeps an
  invariant and answers within a promise (the reassembler, the receive loop, the bridge tasks).
  \<open>polling_step\<close>: such a step iterated until it answers, which is the shape of \<open>recv\<close>.
  \<open>sequence_filter\<close>: the record of sent sequence numbers that the two bridge tasks share.
  \<open>preserved\<close>: a transition system whose steps keep an invariant while the environment allows them
  (a network of bridges); \<open>simulation\<close>: one whose steps are matched by steps of an abstract system
  that show the same events (the bridge over datagrams).
\<close>

section \<open>Decoders and encoders\<close>

locale codec =
  fixes decode :: "'b \<Rightarrow> 'a option"
    and encode :: "'a \<Rightarrow> 'b"
    and wf :: "'a \<Rightarrow> bool"
  assumes decode_iff: "decode b = Some a \<longleftrightarrow> wf a \<and> b = encode a"
begin

lemma decode_encode: "wf a \<Longrightarrow> decode (encode a) = Some a"
  by (simp add: decode_iff)

lemma encode_decode: "decode b = Some a \<Longrightarrow> encode a = b"
  by (simp add: decode_iff)

lemma encode_inject: "wf a \<Longrightarrow> wf a' \<Longrightarrow> encode a = encode a' \<longleftrightarrow> a = a'"
  by (metis decode_encode option.inject)

lemma decode_None_iff: "decode b = None \<longleftrightarrow> (\<forall>a. wf a \<longrightarrow> b \<noteq> encode a)"
proof -
  have "decode b = None \<longleftrightarrow> (\<forall>a. decode b \<noteq> Some a)" by (cases "decode b") auto
  then show ?thesis by (auto simp: decode_iff)
qed

end

section \<open>Steps that never panic\<close>

fun run_steps :: "('s \<Rightarrow> 'a \<Rightarrow> ('s \<times> 'b) may_panic) \<Rightarrow> 's \<Rightarrow> 'a list \<Rightarrow> ('s \<times> 'b list) may_panic"
where
  "run_steps step s [] = Ret (s, [])"
| "run_steps step s (a # as) = do {
     (s, out) \<leftarrow> step s a;
     (s, outs) \<leftarrow> run_steps step s as;
     Ret (s, out # outs) }"

text \<open>Step until the first answer: the inputs left and the answer, or none.\<close>

fun run_until ::
  "('s \<Rightarrow> 'a \<Rightarrow> ('s \<times> 'b option) may_panic) \<Rightarrow> 's \<Rightarrow> 'a list \<Rightarrow> ('s \<times> 'a list \<times> 'b option) may_panic"
where
  "run_until step s [] = Ret (s, [], None)"
| "run_until step s (a # as) = do {
     (s, out) \<leftarrow> step s a;
     (case out of
        Some b \<Rightarrow> Ret (s, as, Some b)
      | None \<Rightarrow> run_until step s as) }"

lemma run_steps_length: "run_steps step s as = Ret (s', outs) \<Longrightarrow> length outs = length as"
  by (induction as arbitrary: s outs) (auto simp: bind_eq_Some_conv split: prod.splits)

text \<open>A run over two lists is the run over the first and then over the second. Stepping until the
  first answer stops where a run answers first.\<close>

lemma run_steps_append:
  "run_steps step s (as @ bs) = do {
     (s, outs) \<leftarrow> run_steps step s as;
     (s, outs') \<leftarrow> run_steps step s bs;
     Ret (s, outs @ outs') }"
proof (induction as arbitrary: s)
  case Nil
  then show ?case by (cases "run_steps step s bs") auto
next
  case (Cons a as)
  show ?case
  proof (cases "step s a")
    case (Some res)
    then obtain s1 out where "step s a = Ret (s1, out)" by (cases res) auto
    with Cons.IH [of s1] show ?thesis
      by (cases "run_steps step s1 as"; cases "run_steps step (fst (the (run_steps step s1 as))) bs") auto
  qed simp
qed

lemma run_until_first:
  "run_steps step s as = Ret (s', replicate n None @ [Some b]) \<Longrightarrow>
     run_until step s (as @ bs) = Ret (s', bs, Some b)"
proof (induction as arbitrary: s n)
  case Nil
  then show ?case by simp
next
  case (Cons a as)
  then obtain s1 out outs where 1: "step s a = Ret (s1, out)" "run_steps step s1 as = Ret (s', outs)"
    "out # outs = replicate n None @ [Some b]"
    by (auto simp: bind_eq_Some_conv split: prod.splits)
  show ?case
  proof (cases n)
    case 0
    with 1 have "as = []" using run_steps_length [OF 1(2)] by simp
    with 0 1 show ?thesis by simp
  next
    case (Suc k)
    with 1 Cons.IH [of s1 k] show ?thesis by simp
  qed
qed

text \<open>What \<open>run_until\<close> returns is the first answer of the run over all inputs.\<close>

lemma run_until_steps:
  "run_steps step s as = Ret (s', outs) \<Longrightarrow>
     \<exists>s1 rest. run_until step s as = Ret (s1, rest, if \<forall>out \<in> set outs. out = None then None
       else hd (filter (\<lambda>out. out \<noteq> None) outs))"
proof (induction as arbitrary: s outs)
  case Nil
  then show ?case by simp
next
  case (Cons a as)
  then obtain s1 out outs1 where "step s a = Ret (s1, out)"
    "run_steps step s1 as = Ret (s', outs1)" "outs = out # outs1"
    by (auto simp: bind_eq_Some_conv split: prod.splits)
  with Cons.IH [of s1 outs1] show ?case by (cases out) auto
qed

locale reliable_step =
  fixes step :: "'s \<Rightarrow> 'a \<Rightarrow> ('s \<times> 'b) may_panic"
    and inv :: "'s \<Rightarrow> bool"
    and promise :: "'b \<Rightarrow> bool"
  assumes step_ok: "inv s \<Longrightarrow> \<exists>s' out. step s a = Ret (s', out) \<and> inv s' \<and> promise out"
begin

lemma step_no_panic: "inv s \<Longrightarrow> step s a \<noteq> Panic"
  using step_ok [of s a] by auto

lemma step_inv: "inv s \<Longrightarrow> step s a = Ret (s', out) \<Longrightarrow> inv s' \<and> promise out"
  using step_ok [of s a] by auto

lemma run_ok:
  "inv s \<Longrightarrow> \<exists>s' outs. run_steps step s as = Ret (s', outs) \<and> inv s' \<and> (\<forall>out \<in> set outs. promise out)"
proof (induction as arbitrary: s)
  case Nil
  then show ?case by simp
next
  case (Cons a as)
  then obtain s1 out where 1: "step s a = Ret (s1, out)" "inv s1" "promise out"
    using step_ok [of s a] by blast
  with Cons.IH [of s1] show ?case by auto
qed

lemma run_no_panic: "inv s \<Longrightarrow> run_steps step s as \<noteq> Panic"
  using run_ok [of s as] by auto

end

locale polling_step = reliable_step step inv promise
  for step :: "'s \<Rightarrow> 'a \<Rightarrow> ('s \<times> 'b option) may_panic" and inv and promise
begin

lemma poll_ok:
  "inv s \<Longrightarrow> \<exists>s' rest out. run_until step s as = Ret (s', rest, out) \<and> inv s' \<and>
     (out = None \<longrightarrow> rest = []) \<and> (out \<noteq> None \<longrightarrow> promise out) \<and> (\<exists>used. as = used @ rest)"
proof (induction as arbitrary: s)
  case Nil
  then show ?case by simp
next
  case (Cons a as)
  then obtain s1 out where 1: "step s a = Ret (s1, out)" "inv s1" "promise out"
    using step_ok [of s a] by blast
  show ?case
  proof (cases out)
    case None
    with 1 Cons.IH [of s1] show ?thesis by (auto intro: exI [where x = "a # used" for used])
  next
    case (Some b)
    with 1 show ?thesis by auto
  qed
qed

lemma poll_no_panic: "inv s \<Longrightarrow> run_until step s as \<noteq> Panic"
  using poll_ok [of s as] by auto

end

section \<open>Transition systems under an environment\<close>

text \<open>A run of a transition function; \<open>None\<close> when a step is not allowed or not possible.\<close>

fun guarded_run :: "('s \<Rightarrow> 'a \<Rightarrow> bool) \<Rightarrow> ('s \<Rightarrow> 'a \<Rightarrow> 's option) \<Rightarrow> 's \<Rightarrow> 'a list \<Rightarrow> 's option" where
  "guarded_run allowed exec s [] = Some s"
| "guarded_run allowed exec s (a # as) =
     (if allowed s a then Option.bind (exec s a) (\<lambda>s. guarded_run allowed exec s as) else None)"

lemma guarded_run_append:
  "guarded_run allowed exec s (as @ bs) =
     Option.bind (guarded_run allowed exec s as) (\<lambda>s. guarded_run allowed exec s bs)"
  by (induction as arbitrary: s) (auto split: bind_split)

lemma guarded_run_Cons_Some:
  "guarded_run allowed exec s (a # as) = Some s' \<longleftrightarrow>
     (\<exists>s1. allowed s a \<and> exec s a = Some s1 \<and> guarded_run allowed exec s1 as = Some s')"
  by (auto simp: bind_eq_Some_conv)

lemma guarded_run_all:
  "guarded_run allowed exec s as = Some s' \<Longrightarrow> list_all P as \<Longrightarrow>
     guarded_run (\<lambda>s a. allowed s a \<and> P a) exec s as = Some s'"
  by (induction as arbitrary: s) (auto simp: bind_eq_Some_conv split: if_splits)

locale preserved =
  fixes allowed :: "'s \<Rightarrow> 'a \<Rightarrow> bool"
    and exec :: "'s \<Rightarrow> 'a \<Rightarrow> 's option"
    and inv :: "'s \<Rightarrow> bool"
  assumes step_preserves: "inv s \<Longrightarrow> allowed s a \<Longrightarrow> exec s a = Some s' \<Longrightarrow> inv s'"
begin

lemma run_preserves: "inv s \<Longrightarrow> guarded_run allowed exec s as = Some s' \<Longrightarrow> inv s'"
  by (induction as arbitrary: s) (auto simp: bind_eq_Some_conv split: if_splits dest: step_preserves)

end

text \<open>What a run shows: the events that \<open>shows\<close> names for its steps.\<close>

fun run_trace :: "('s \<Rightarrow> 'a \<Rightarrow> 's \<Rightarrow> 'e list) \<Rightarrow> ('s \<Rightarrow> 'a \<Rightarrow> 's option) \<Rightarrow> 's \<Rightarrow> 'a list \<Rightarrow> 'e list" where
  "run_trace shows exec s [] = []"
| "run_trace shows exec s (a # as) =
     (case exec s a of None \<Rightarrow> [] | Some s' \<Rightarrow> shows s a s' @ run_trace shows exec s' as)"

lemma run_trace_append:
  "guarded_run allowed exec s as = Some s' \<Longrightarrow>
     run_trace shows exec s (as @ bs) = run_trace shows exec s as @ run_trace shows exec s' bs"
  by (induction as arbitrary: s) (auto simp: bind_eq_Some_conv split: if_splits)

text \<open>Trace inclusion: \<open>reaches tr b\<close> says that the abstract system has a run to \<open>b\<close> that shows \<open>tr\<close>, and
  each step is matched by abstract steps that show the same events.\<close>

locale simulation =
  fixes allowed :: "'s \<Rightarrow> 'a \<Rightarrow> bool"
    and exec :: "'s \<Rightarrow> 'a \<Rightarrow> 's option"
    and shows_events :: "'s \<Rightarrow> 'a \<Rightarrow> 's \<Rightarrow> 'e list"
    and related :: "'s \<Rightarrow> 'b \<Rightarrow> bool"
    and reaches :: "'e list \<Rightarrow> 'b \<Rightarrow> bool"
  assumes step_simulated: "related s b \<Longrightarrow> reaches tr b \<Longrightarrow> allowed s a \<Longrightarrow> exec s a = Some s' \<Longrightarrow>
    \<exists>b'. reaches (tr @ shows_events s a s') b' \<and> related s' b'"

sublocale simulation \<subseteq> preserved allowed exec "\<lambda>s. \<exists>tr b. reaches tr b \<and> related s b"
proof unfold_locales
  fix s a s'
  assume "\<exists>tr b. reaches tr b \<and> related s b" and step: "allowed s a" "exec s a = Some s'"
  then obtain tr b where "reaches tr b" "related s b" by iprover
  from step_simulated [OF this(2,1) step] show "\<exists>tr b. reaches tr b \<and> related s' b" by iprover
qed

context simulation
begin

lemma run_simulated:
  "related s b \<Longrightarrow> reaches tr b \<Longrightarrow> guarded_run allowed exec s as = Some s' \<Longrightarrow>
     \<exists>b'. reaches (tr @ run_trace shows_events exec s as) b' \<and> related s' b'"
proof (induction as arbitrary: s b tr)
  case Nil
  then show ?case by auto
next
  case (Cons a as)
  from Cons.prems(3) obtain s1 where s1: "allowed s a" "exec s a = Some s1"
    "guarded_run allowed exec s1 as = Some s'"
    unfolding guarded_run_Cons_Some by blast
  from step_simulated [OF Cons.prems(1,2) s1(1,2)] obtain b1 where
    b1: "reaches (tr @ shows_events s a s1) b1" "related s1 b1" by blast
  from Cons.IH [OF b1(2,1) s1(3)] s1(2) show ?case by simp
qed

end

section \<open>Recording sent sequence numbers\<close>

text \<open>
  \<open>record\<close> stores a number, \<open>take_out\<close> tests for a number and removes it. A recorded number is
  found, a removed one is gone, and no operation invents numbers.
\<close>

locale sequence_filter =
  fixes record_seq :: "'s \<Rightarrow> u32 \<Rightarrow> 's"
    and take_out :: "'s \<Rightarrow> u32 \<Rightarrow> 's \<times> bool"
    and mem :: "'s \<Rightarrow> u32 \<Rightarrow> bool"
  assumes record_mem: "mem (record_seq s n) n"
    and record_only: "mem (record_seq s n) m \<Longrightarrow> m = n \<or> mem s m"
    and take_out_answer: "snd (take_out s n) \<longleftrightarrow> mem s n"
    and take_out_mem: "mem (fst (take_out s n)) m \<longleftrightarrow> mem s m \<and> m \<noteq> n"
begin

lemma record_take_out: "snd (take_out (record_seq s n) n)"
  by (simp add: take_out_answer record_mem)

lemma take_out_once: "\<not> snd (take_out (fst (take_out s n)) n)"
  by (simp add: take_out_answer take_out_mem)

lemma take_out_other: "m \<noteq> n \<Longrightarrow> snd (take_out (fst (take_out s n)) m) \<longleftrightarrow> snd (take_out s m)"
  by (simp add: take_out_answer take_out_mem)

end

end
