(* ===== verification/Protocol.thy ===== *)
theory Protocol
  imports Rust_Str Interfaces
begin

text \<open>
  The LCM wire protocol of \<open>lcm-transport/src/protocol.rs\<close>: the two datagram formats,
  LC02 (a short message) and LC03 (a fragment), their encoders and the parser. Every slice
  and index operation of the parser is written with the panicking operations of the prelude,
  so that the absence of panics on arbitrary datagrams is a theorem and not an assumption.
\<close>

section \<open>Constants and data\<close>

definition MAGIC_SHORT :: u32 where "MAGIC_SHORT = 0x4c433032"
definition MAGIC_FRAGMENT :: u32 where "MAGIC_FRAGMENT = 0x4c433033"
definition SHORT_HEADER_SIZE :: usize where "SHORT_HEADER_SIZE = 4 + 4"
definition FRAGMENT_HEADER_SIZE :: usize where "FRAGMENT_HEADER_SIZE = 20"

record ShortMessage =
  sm_sequence_number :: u32
  sm_channel :: string
  sm_data :: bytes

record Fragment =
  frag_sequence_number :: u32
  frag_payload_size :: u32
  frag_fragment_offset :: u32
  frag_fragment_number :: u16
  frag_n_fragments :: u16
  frag_channel :: "string option"
  frag_data :: bytes

datatype Packet = Short ShortMessage | Frag Fragment

section \<open>Big-endian integers\<close>

definition u32_to_be_bytes :: "u32 \<Rightarrow> bytes" where
  "u32_to_be_bytes w =
     [ucast (drop_bit 24 w), ucast (drop_bit 16 w), ucast (drop_bit 8 w), ucast w]"

definition u16_to_be_bytes :: "u16 \<Rightarrow> bytes" where
  "u16_to_be_bytes w = [ucast (drop_bit 8 w), ucast w]"

definition u32_from_be_bytes :: "u8 \<Rightarrow> u8 \<Rightarrow> u8 \<Rightarrow> u8 \<Rightarrow> u32" where
  "u32_from_be_bytes a b c d =
     push_bit 24 (ucast a) OR push_bit 16 (ucast b) OR push_bit 8 (ucast c) OR ucast d"

definition u16_from_be_bytes :: "u8 \<Rightarrow> u8 \<Rightarrow> u16" where
  "u16_from_be_bytes a b = push_bit 8 (ucast a) OR ucast b"

text \<open>\<open>u32::from_be_bytes([buf[i], buf[i+1], buf[i+2], buf[i+3]])\<close>, and for \<open>u16\<close>.\<close>

definition read_u32 :: "bytes \<Rightarrow> usize \<Rightarrow> u32 may_panic" where
  "read_u32 buf i = do {
     a \<leftarrow> index buf i;
     b \<leftarrow> index buf (i + 1);
     c \<leftarrow> index buf (i + 2);
     d \<leftarrow> index buf (i + 3);
     Ret (u32_from_be_bytes a b c d) }"

definition read_u16 :: "bytes \<Rightarrow> usize \<Rightarrow> u16 may_panic" where
  "read_u16 buf i = do {
     a \<leftarrow> index buf i;
     b \<leftarrow> index buf (i + 1);
     Ret (u16_from_be_bytes a b) }"

section \<open>Parsing\<close>

definition parse_short_message :: "bytes \<Rightarrow> Packet option may_panic" where
  "parse_short_message buf =
     (if length buf < SHORT_HEADER_SIZE then Ret None
      else do {
        sequence_number \<leftarrow> read_u32 buf 4;
        channel_and_data \<leftarrow> slice_from buf 8;
        (case position (\<lambda>b. b = 0) channel_and_data of
           None \<Rightarrow> Ret None
         | Some null_pos \<Rightarrow> do {
             name \<leftarrow> slice_to channel_and_data null_pos;
             (case from_utf8 name of
                None \<Rightarrow> Ret None
              | Some channel \<Rightarrow> do {
                  data \<leftarrow> slice_from channel_and_data (null_pos + 1);
                  Ret (Some (Short \<lparr>sm_sequence_number = sequence_number,
                                    sm_channel = channel, sm_data = data\<rparr>)) }) }) })"

definition parse_fragment :: "bytes \<Rightarrow> Packet option may_panic" where
  "parse_fragment buf =
     (if length buf < FRAGMENT_HEADER_SIZE then Ret None
      else do {
        sequence_number \<leftarrow> read_u32 buf 4;
        payload_size \<leftarrow> read_u32 buf 8;
        fragment_offset \<leftarrow> read_u32 buf 12;
        fragment_number \<leftarrow> read_u16 buf 16;
        n_fragments \<leftarrow> read_u16 buf 18;
        rest \<leftarrow> slice_from buf FRAGMENT_HEADER_SIZE;
        channel_data \<leftarrow>
          (if fragment_number = 0 then
             (case position (\<lambda>b. b = 0) rest of
                None \<Rightarrow> Ret None
              | Some null_pos \<Rightarrow> do {
                  name \<leftarrow> slice_to rest null_pos;
                  (case from_utf8 name of
                     None \<Rightarrow> Ret None
                   | Some channel \<Rightarrow> do {
                       data \<leftarrow> slice_from rest (null_pos + 1);
                       Ret (Some (Some channel, data)) }) })
           else Ret (Some (None, rest)));
        (case channel_data of
           None \<Rightarrow> Ret None
         | Some (channel, data) \<Rightarrow>
             Ret (Some (Frag \<lparr>frag_sequence_number = sequence_number,
                              frag_payload_size = payload_size,
                              frag_fragment_offset = fragment_offset,
                              frag_fragment_number = fragment_number,
                              frag_n_fragments = n_fragments,
                              frag_channel = channel, frag_data = data\<rparr>))) })"

definition parse_datagram :: "bytes \<Rightarrow> Packet option may_panic" where
  "parse_datagram buf =
     (if length buf < 4 then Ret None
      else do {
        magic \<leftarrow> read_u32 buf 0;
        if magic = MAGIC_SHORT then parse_short_message buf
        else if magic = MAGIC_FRAGMENT then parse_fragment buf
        else Ret None })"

section \<open>Encoding\<close>

text \<open>The encoders clear the buffer they are given and append to it.\<close>

definition encode_short_message :: "bytes \<Rightarrow> u32 \<Rightarrow> string \<Rightarrow> bytes \<Rightarrow> bytes" where
  "encode_short_message buf sequence_number channel data =
     (let buf = [];
          buf = buf @ u32_to_be_bytes MAGIC_SHORT;
          buf = buf @ u32_to_be_bytes sequence_number;
          buf = buf @ as_bytes channel;
          buf = buf @ [0];
          buf = buf @ data
      in buf)"

definition encode_fragment ::
  "bytes \<Rightarrow> u32 \<Rightarrow> u32 \<Rightarrow> u32 \<Rightarrow> u16 \<Rightarrow> u16 \<Rightarrow> string option \<Rightarrow> bytes \<Rightarrow> bytes" where
  "encode_fragment buf sequence_number payload_size fragment_offset fragment_number n_fragments
       channel data =
     (let buf = [];
          buf = buf @ u32_to_be_bytes MAGIC_FRAGMENT;
          buf = buf @ u32_to_be_bytes sequence_number;
          buf = buf @ u32_to_be_bytes payload_size;
          buf = buf @ u32_to_be_bytes fragment_offset;
          buf = buf @ u16_to_be_bytes fragment_number;
          buf = buf @ u16_to_be_bytes n_fragments;
          buf = (case channel of None \<Rightarrow> buf | Some channel \<Rightarrow> (buf @ as_bytes channel) @ [0]);
          buf = buf @ data
      in buf)"

section \<open>Integer round trips\<close>

lemma length_u32_to_be_bytes [simp]: "length (u32_to_be_bytes w) = 4"
  by (simp add: u32_to_be_bytes_def)

lemma length_u16_to_be_bytes [simp]: "length (u16_to_be_bytes w) = 2"
  by (simp add: u16_to_be_bytes_def)

lemma high_bit_u8 [simp]: "8 \<le> n \<Longrightarrow> \<not> bit (b :: u8) n"
  using bit_imp_le_length [of b n] by auto

lemma u32_from_to [wire]:
  "u32_from_be_bytes (ucast (drop_bit 24 w)) (ucast (drop_bit 16 w)) (ucast (drop_bit 8 w)) (ucast w) = w"
  for w :: u32
  unfolding u32_from_be_bytes_def
proof (rule bit_word_eqI, goal_cases)
  case (1 n)
  then consider "n < 8" | "8 \<le> n" "n < 16" | "16 \<le> n" "n < 24" | "24 \<le> n" "n < 32"
    by force
  then show ?case
    by cases (auto simp: bit_simps)
qed

lemma u32_to_from [wire]: "u32_to_be_bytes (u32_from_be_bytes a b c d) = [a, b, c, d]"
  unfolding u32_from_be_bytes_def u32_to_be_bytes_def
  by (auto intro!: bit_word_eqI simp: bit_simps)

lemma u16_from_to [wire]: "u16_from_be_bytes (ucast (drop_bit 8 w)) (ucast w) = w"
  for w :: u16
  unfolding u16_from_be_bytes_def
  by (rule bit_word_eqI) (auto simp: bit_simps)

lemma u16_to_from [wire]: "u16_to_be_bytes (u16_from_be_bytes a b) = [a, b]"
  unfolding u16_from_be_bytes_def u16_to_be_bytes_def
  by (auto intro!: bit_word_eqI simp: bit_simps)

lemma take_drop_4: "i + 4 \<le> length xs \<Longrightarrow> take 4 (drop i xs) = [xs ! i, xs ! (i + 1), xs ! (i + 2), xs ! (i + 3)]"
  by (rule nth_equalityI) (auto simp: less_Suc_eq numeral_eq_Suc)

lemma take_drop_2: "i + 2 \<le> length xs \<Longrightarrow> take 2 (drop i xs) = [xs ! i, xs ! (i + 1)]"
  by (rule nth_equalityI) (auto simp: less_Suc_eq numeral_eq_Suc)

lemma read_u32_nth: "i + 4 \<le> length buf \<Longrightarrow>
    read_u32 buf i = Ret (u32_from_be_bytes (buf ! i) (buf ! (i + 1)) (buf ! (i + 2)) (buf ! (i + 3)))"
  by (simp add: read_u32_def index_def)

lemma read_u16_nth: "i + 2 \<le> length buf \<Longrightarrow>
    read_u16 buf i = Ret (u16_from_be_bytes (buf ! i) (buf ! (i + 1)))"
  by (simp add: read_u16_def index_def)

lemma read_u32_iff:
  assumes "i + 4 \<le> length buf"
  shows "read_u32 buf i = Ret w \<longleftrightarrow> take 4 (drop i buf) = u32_to_be_bytes w"
proof
  assume "read_u32 buf i = Ret w"
  with assms show "take 4 (drop i buf) = u32_to_be_bytes w"
    by (auto simp: read_u32_nth take_drop_4 u32_to_from)
next
  assume "take 4 (drop i buf) = u32_to_be_bytes w"
  with assms show "read_u32 buf i = Ret w"
    by (simp add: read_u32_nth take_drop_4 u32_to_be_bytes_def u32_from_to)
qed

lemma read_u16_iff:
  assumes "i + 2 \<le> length buf"
  shows "read_u16 buf i = Ret w \<longleftrightarrow> take 2 (drop i buf) = u16_to_be_bytes w"
proof
  assume "read_u16 buf i = Ret w"
  with assms show "take 2 (drop i buf) = u16_to_be_bytes w"
    by (auto simp: read_u16_nth take_drop_2 u16_to_from)
next
  assume "take 2 (drop i buf) = u16_to_be_bytes w"
  with assms show "read_u16 buf i = Ret w"
    by (simp add: read_u16_nth take_drop_2 u16_to_be_bytes_def u16_from_to)
qed

lemma read_u32_returns: "i + 4 \<le> length buf \<Longrightarrow> \<exists>w. read_u32 buf i = Ret w"
  by (simp add: read_u32_nth)

lemma read_u16_returns: "i + 2 \<le> length buf \<Longrightarrow> \<exists>w. read_u16 buf i = Ret w"
  by (simp add: read_u16_nth)

section \<open>The channel field\<close>

text \<open>A channel name that survives the wire: valid UTF-8 without a NUL byte.\<close>

definition wf_channel :: "string \<Rightarrow> bool" where
  "wf_channel s \<longleftrightarrow> valid_str s \<and> CHR 0x00 \<notin> set s"

text \<open>What both parsers read after the header: the bytes up to the first NUL as a name,
  the rest as data.\<close>

definition read_channel :: "bytes \<Rightarrow> (string \<times> bytes) option" where
  "read_channel bs = do {
     i \<leftarrow> position (\<lambda>b. b = 0) bs;
     s \<leftarrow> from_utf8 (take i bs);
     Some (s, drop (i + 1) bs) }"

lemma read_channel_iff: "read_channel bs = Some (s, d) \<longleftrightarrow> wf_channel s \<and> bs = as_bytes s @ 0 # d"
proof
  assume "read_channel bs = Some (s, d)"
  then obtain i where i: "position (\<lambda>b. b = 0) bs = Some i"
    and s: "from_utf8 (take i bs) = Some s" and d: "d = drop (Suc i) bs"
    by (auto simp: read_channel_def bind_eq_Some_conv)
  from position_Some_split [OF i] s d show "wf_channel s \<and> bs = as_bytes s @ 0 # d"
    by (auto simp: wf_channel_def from_utf8_Some_iff simp flip: zero_in_as_bytes)
next
  assume "wf_channel s \<and> bs = as_bytes s @ 0 # d"
  then have s: "wf_channel s" and bs: "bs = as_bytes s @ 0 # d" by simp_all
  from s have "\<forall>b \<in> set (as_bytes s). \<not> b = 0"
    by (auto simp: wf_channel_def simp flip: zero_in_as_bytes)
  then have "position (\<lambda>b. b = 0) bs = Some (length s)"
    using position_append [of "as_bytes s" "\<lambda>b. b = 0" 0 d] by (simp add: bs)
  with s show "read_channel bs = Some (s, d)"
    by (simp add: read_channel_def wf_channel_def bs)
qed

lemma read_channel_slices:
  "(case position (\<lambda>b. b = 0) bs of
      None \<Rightarrow> Ret None
    | Some i \<Rightarrow> do {
        name \<leftarrow> slice_to bs i;
        (case from_utf8 name of
           None \<Rightarrow> Ret None
         | Some s \<Rightarrow> do { d \<leftarrow> slice_from bs (i + 1); Ret (Some (f s d)) }) })
   = Ret (map_option (\<lambda>(s, d). f s d) (read_channel bs))"
proof (cases "position (\<lambda>b. b = 0) bs")
  case (Some i)
  then have "i < length bs" by (rule position_Some_less)
  with Some show ?thesis
    by (simp add: read_channel_def in_range split: option.splits)
qed (simp add: read_channel_def)

section \<open>What the parser accepts\<close>

text \<open>The packets that have an encoding, and that encoding.\<close>

fun wf_packet :: "Packet \<Rightarrow> bool" where
  "wf_packet (Short m) = wf_channel (sm_channel m)"
| "wf_packet (Frag f) =
     (case frag_channel f of
        None \<Rightarrow> frag_fragment_number f \<noteq> 0
      | Some c \<Rightarrow> frag_fragment_number f = 0 \<and> wf_channel c)"

fun encode_packet :: "Packet \<Rightarrow> bytes" where
  "encode_packet (Short m) =
     encode_short_message [] (sm_sequence_number m) (sm_channel m) (sm_data m)"
| "encode_packet (Frag f) =
     encode_fragment [] (frag_sequence_number f) (frag_payload_size f) (frag_fragment_offset f)
       (frag_fragment_number f) (frag_n_fragments f) (frag_channel f) (frag_data f)"

lemma encode_short_message_eq:
  "encode_short_message buf n c d =
     u32_to_be_bytes MAGIC_SHORT @ u32_to_be_bytes n @ as_bytes c @ 0 # d"
  by (simp add: encode_short_message_def)

definition channel_field :: "string option \<Rightarrow> bytes" where
  "channel_field c = (case c of None \<Rightarrow> [] | Some s \<Rightarrow> as_bytes s @ [0])"

lemma encode_fragment_eq:
  "encode_fragment buf n ps off i k c d =
     u32_to_be_bytes MAGIC_FRAGMENT @ u32_to_be_bytes n @ u32_to_be_bytes ps @ u32_to_be_bytes off
     @ u16_to_be_bytes i @ u16_to_be_bytes k @ channel_field c @ d"
  by (simp add: encode_fragment_def channel_field_def split: option.splits)

lemma length_encode_fragment [wire]:
  "length (encode_fragment buf n ps off i k c d) =
     FRAGMENT_HEADER_SIZE + length (channel_field c) + length d"
  by (simp add: encode_fragment_eq FRAGMENT_HEADER_SIZE_def)

lemma length_encode_short_message [wire]:
  "length (encode_short_message buf n c d) = 4 + 4 + length c + 1 + length d"
  by (simp add: encode_short_message_eq)

definition short_of :: "u32 \<Rightarrow> string \<times> bytes \<Rightarrow> Packet" where
  "short_of n = (\<lambda>(c, d). Short \<lparr>sm_sequence_number = n, sm_channel = c, sm_data = d\<rparr>)"

definition frag_of :: "u32 \<Rightarrow> u32 \<Rightarrow> u32 \<Rightarrow> u16 \<Rightarrow> u16 \<Rightarrow> string option \<times> bytes \<Rightarrow> Packet" where
  "frag_of n ps off i k = (\<lambda>(c, d). Frag \<lparr>frag_sequence_number = n, frag_payload_size = ps,
     frag_fragment_offset = off, frag_fragment_number = i, frag_n_fragments = k,
     frag_channel = c, frag_data = d\<rparr>)"

definition read_body :: "u16 \<Rightarrow> bytes \<Rightarrow> (string option \<times> bytes) option" where
  "read_body i bs =
     (if i = 0 then map_option (\<lambda>(c, d). (Some c, d)) (read_channel bs) else Some (None, bs))"

lemma parse_short_message_eq:
  assumes "SHORT_HEADER_SIZE \<le> length buf" and "read_u32 buf 4 = Ret n"
  shows "parse_short_message buf = Ret (map_option (short_of n) (read_channel (drop 8 buf)))"
  using assms
  by (simp add: parse_short_message_def SHORT_HEADER_SIZE_def in_range read_channel_slices
      short_of_def)

lemma parse_fragment_eq:
  assumes "FRAGMENT_HEADER_SIZE \<le> length buf"
    and "read_u32 buf 4 = Ret n" "read_u32 buf 8 = Ret ps" "read_u32 buf 12 = Ret off"
    and "read_u16 buf 16 = Ret i" "read_u16 buf 18 = Ret k"
  shows "parse_fragment buf =
    Ret (map_option (frag_of n ps off i k) (read_body i (drop FRAGMENT_HEADER_SIZE buf)))"
  using assms
  by (cases "i = 0")
    (auto simp: parse_fragment_def in_range read_channel_slices read_body_def frag_of_def
      split: option.splits)

lemma read_body_iff:
  "read_body i bs = Some (c, d) \<longleftrightarrow>
     bs = channel_field c @ d \<and> (case c of None \<Rightarrow> i \<noteq> 0 | Some s \<Rightarrow> i = 0 \<and> wf_channel s)"
  by (auto simp: read_body_def read_channel_iff channel_field_def split: option.splits)

lemma parse_short_message_iff:
  "parse_short_message buf = Ret (Some p) \<longleftrightarrow> SHORT_HEADER_SIZE \<le> length buf \<and>
     (\<exists>n c d. p = short_of n (c, d) \<and> take 4 (drop 4 buf) = u32_to_be_bytes n
        \<and> read_channel (drop 8 buf) = Some (c, d))" (is "_ \<longleftrightarrow> ?len \<and> _")
proof (cases "?len")
  case True
  then obtain n where n: "read_u32 buf 4 = Ret n"
    using read_u32_returns [of 4 buf] by (auto simp: SHORT_HEADER_SIZE_def)
  then have "take 4 (drop 4 buf) = u32_to_be_bytes n' \<longleftrightarrow> n' = n" for n'
    using True read_u32_iff [of 4 buf n'] by (auto simp: SHORT_HEADER_SIZE_def)
  with True parse_short_message_eq [OF True n] show ?thesis by auto
qed (simp add: parse_short_message_def)

lemma parse_fragment_iff:
  "parse_fragment buf = Ret (Some p) \<longleftrightarrow> FRAGMENT_HEADER_SIZE \<le> length buf \<and>
     (\<exists>n ps off i k c d. p = frag_of n ps off i k (c, d)
        \<and> take 4 (drop 4 buf) = u32_to_be_bytes n \<and> take 4 (drop 8 buf) = u32_to_be_bytes ps
        \<and> take 4 (drop 12 buf) = u32_to_be_bytes off \<and> take 2 (drop 16 buf) = u16_to_be_bytes i
        \<and> take 2 (drop 18 buf) = u16_to_be_bytes k
        \<and> read_body i (drop FRAGMENT_HEADER_SIZE buf) = Some (c, d))" (is "_ \<longleftrightarrow> ?len \<and> _")
proof (cases "?len")
  case True
  then have len: "20 \<le> length buf" by (simp add: FRAGMENT_HEADER_SIZE_def)
  then obtain n ps off i k where reads:
    "read_u32 buf 4 = Ret n" "read_u32 buf 8 = Ret ps" "read_u32 buf 12 = Ret off"
    "read_u16 buf 16 = Ret i" "read_u16 buf 18 = Ret k"
    using read_u32_returns [of 4 buf] read_u32_returns [of 8 buf] read_u32_returns [of 12 buf]
      read_u16_returns [of 16 buf] read_u16_returns [of 18 buf] by auto
  then have "take 4 (drop 4 buf) = u32_to_be_bytes n' \<longleftrightarrow> n' = n"
    "take 4 (drop 8 buf) = u32_to_be_bytes n' \<longleftrightarrow> n' = ps"
    "take 4 (drop 12 buf) = u32_to_be_bytes n' \<longleftrightarrow> n' = off"
    "take 2 (drop 16 buf) = u16_to_be_bytes i' \<longleftrightarrow> i' = i"
    "take 2 (drop 18 buf) = u16_to_be_bytes i' \<longleftrightarrow> i' = k" for n' i'
    using len read_u32_iff [of 4 buf n'] read_u32_iff [of 8 buf n'] read_u32_iff [of 12 buf n']
      read_u16_iff [of 16 buf i'] read_u16_iff [of 18 buf i'] by auto
  with True parse_fragment_eq [OF True reads] show ?thesis by auto
qed (simp add: parse_fragment_def)

lemma parse_short_message_total: "parse_short_message buf \<noteq> Panic"
proof (cases "SHORT_HEADER_SIZE \<le> length buf")
  case True
  then obtain n where "read_u32 buf 4 = Ret n"
    using read_u32_returns [of 4 buf] by (auto simp: SHORT_HEADER_SIZE_def)
  with True show ?thesis by (simp add: parse_short_message_eq)
qed (simp add: parse_short_message_def)

lemma parse_fragment_total: "parse_fragment buf \<noteq> Panic"
proof (cases "FRAGMENT_HEADER_SIZE \<le> length buf")
  case True
  then have "20 \<le> length buf" by (simp add: FRAGMENT_HEADER_SIZE_def)
  then obtain n ps off i k where
    "read_u32 buf 4 = Ret n" "read_u32 buf 8 = Ret ps" "read_u32 buf 12 = Ret off"
    "read_u16 buf 16 = Ret i" "read_u16 buf 18 = Ret k"
    using read_u32_returns [of 4 buf] read_u32_returns [of 8 buf] read_u32_returns [of 12 buf]
      read_u16_returns [of 16 buf] read_u16_returns [of 18 buf] by auto
  with True show ?thesis by (simp add: parse_fragment_eq)
qed (simp add: parse_fragment_def)

lemma parse_datagram_total: "parse_datagram buf \<noteq> Panic"
proof (cases "4 \<le> length buf")
  case True
  then obtain w where "read_u32 buf 0 = Ret w" using read_u32_returns [of 0 buf] by auto
  with True show ?thesis
    using parse_short_message_total [of buf] parse_fragment_total [of buf]
    by (auto simp: parse_datagram_def)
qed (simp add: parse_datagram_def)

lemma parse_datagram_magic:
  "parse_datagram buf = Ret (Some p) \<longleftrightarrow> 4 \<le> length buf \<and>
     (take 4 buf = u32_to_be_bytes MAGIC_SHORT \<and> parse_short_message buf = Ret (Some p) \<or>
      take 4 buf = u32_to_be_bytes MAGIC_FRAGMENT \<and> parse_fragment buf = Ret (Some p))"
  (is "_ \<longleftrightarrow> ?len \<and> _")
proof (cases "?len")
  case True
  then obtain w where w: "read_u32 buf 0 = Ret w" using read_u32_returns [of 0 buf] by auto
  then have "take 4 buf = u32_to_be_bytes w' \<longleftrightarrow> w' = w" for w'
    using True read_u32_iff [of 0 buf w'] by auto
  with True w show ?thesis
    by (auto simp: parse_datagram_def MAGIC_SHORT_def MAGIC_FRAGMENT_def)
qed (simp add: parse_datagram_def)

lemma parse_short_packet_iff:
  "parse_datagram buf = Ret (Some (Short m)) \<longleftrightarrow> wf_packet (Short m) \<and> buf = encode_packet (Short m)"
  (is "?parse \<longleftrightarrow> ?enc")
proof
  assume ?parse
  then have len: "8 \<le> length buf" and magic: "take 4 buf = u32_to_be_bytes MAGIC_SHORT"
    and seq: "take 4 (drop 4 buf) = u32_to_be_bytes (sm_sequence_number m)"
    and rest: "read_channel (drop 8 buf) = Some (sm_channel m, sm_data m)"
    by (auto simp: parse_datagram_magic parse_short_message_iff parse_fragment_iff short_of_def
        frag_of_def SHORT_HEADER_SIZE_def)
  have "buf = take 4 buf @ take 4 (drop 4 buf) @ drop 8 buf"
    by (metis append_take_drop_id drop_drop numeral_Bit0)
  with magic seq rest show ?enc by (simp add: encode_short_message_eq read_channel_iff)
next
  assume enc: ?enc
  then have "take 4 buf = u32_to_be_bytes MAGIC_SHORT"
    "take 4 (drop 4 buf) = u32_to_be_bytes (sm_sequence_number m)"
    "drop 8 buf = as_bytes (sm_channel m) @ 0 # sm_data m"
    by (simp_all add: encode_short_message_eq)
  moreover from enc have "8 \<le> length buf" by (simp add: length_encode_short_message)
  moreover have "Short m = short_of (sm_sequence_number m) (sm_channel m, sm_data m)"
    by (simp add: short_of_def)
  moreover from enc have "read_channel (as_bytes (sm_channel m) @ 0 # sm_data m) = Some (sm_channel m, sm_data m)"
    by (simp add: read_channel_iff)
  ultimately have "parse_short_message buf = Ret (Some (Short m))"
    unfolding parse_short_message_iff SHORT_HEADER_SIZE_def by (metis one_add_one numeral_Bit0)
  with \<open>take 4 buf = _\<close> \<open>8 \<le> length buf\<close> show ?parse by (simp add: parse_datagram_magic)
qed

lemma parse_frag_packet_iff:
  "parse_datagram buf = Ret (Some (Frag f)) \<longleftrightarrow> wf_packet (Frag f) \<and> buf = encode_packet (Frag f)"
  (is "?parse \<longleftrightarrow> ?enc")
proof
  assume ?parse
  then have magic: "take 4 buf = u32_to_be_bytes MAGIC_FRAGMENT"
    and fields: "take 4 (drop 4 buf) = u32_to_be_bytes (frag_sequence_number f)"
      "take 4 (drop 8 buf) = u32_to_be_bytes (frag_payload_size f)"
      "take 4 (drop 12 buf) = u32_to_be_bytes (frag_fragment_offset f)"
      "take 2 (drop 16 buf) = u16_to_be_bytes (frag_fragment_number f)"
      "take 2 (drop 18 buf) = u16_to_be_bytes (frag_n_fragments f)"
    and body: "read_body (frag_fragment_number f) (drop 20 buf) = Some (frag_channel f, frag_data f)"
    by (auto simp: parse_datagram_magic parse_short_message_iff parse_fragment_iff short_of_def
        frag_of_def FRAGMENT_HEADER_SIZE_def)
  have "buf = take 4 buf @ take 4 (drop 4 buf) @ take 4 (drop 8 buf) @ take 4 (drop 12 buf)
      @ take 2 (drop 16 buf) @ take 2 (drop 18 buf) @ drop 20 buf"
    using append_take_drop_id [of 4 buf] append_take_drop_id [of 4 "drop 4 buf"]
      append_take_drop_id [of 4 "drop 8 buf"] append_take_drop_id [of 4 "drop 12 buf"]
      append_take_drop_id [of 2 "drop 16 buf"] append_take_drop_id [of 2 "drop 18 buf"]
    by simp
  with magic fields body show ?enc
    by (simp add: encode_fragment_eq read_body_iff split: option.splits)
next
  assume enc: ?enc
  then have "buf = u32_to_be_bytes MAGIC_FRAGMENT @ u32_to_be_bytes (frag_sequence_number f)
      @ u32_to_be_bytes (frag_payload_size f) @ u32_to_be_bytes (frag_fragment_offset f)
      @ u16_to_be_bytes (frag_fragment_number f) @ u16_to_be_bytes (frag_n_fragments f)
      @ channel_field (frag_channel f) @ frag_data f"
    by (simp add: encode_fragment_eq)
  moreover from enc have "read_body (frag_fragment_number f)
      (channel_field (frag_channel f) @ frag_data f) = Some (frag_channel f, frag_data f)"
    by (simp add: read_body_iff)
  moreover have "Frag f = frag_of (frag_sequence_number f) (frag_payload_size f)
      (frag_fragment_offset f) (frag_fragment_number f) (frag_n_fragments f) (frag_channel f, frag_data f)"
    by (simp add: frag_of_def)
  ultimately have "parse_fragment buf = Ret (Some (Frag f))"
    unfolding parse_fragment_iff FRAGMENT_HEADER_SIZE_def
    by (intro conjI exI) (assumption | simp)+
  with enc show ?parse by (simp add: parse_datagram_magic encode_fragment_eq)
qed

lemma parse_datagram_iff:
  "parse_datagram buf = Ret (Some p) \<longleftrightarrow> wf_packet p \<and> buf = encode_packet p"
  by (cases p) (simp_all only: parse_short_packet_iff parse_frag_packet_iff)

interpretation wire_codec: codec "\<lambda>buf. the (parse_datagram buf)" encode_packet wf_packet
proof
  fix buf p
  obtain res where "parse_datagram buf = Ret res" using parse_datagram_total by blast
  with parse_datagram_iff [of buf p] show "the (parse_datagram buf) = Some p \<longleftrightarrow> wf_packet p \<and> buf = encode_packet p"
    by simp
qed

lemma parse_encode_fragment:
  assumes "case channel of None \<Rightarrow> i \<noteq> 0 | Some c \<Rightarrow> i = 0 \<and> wf_channel c"
  shows "parse_datagram (encode_fragment buf n ps off i k channel data) =
    Ret (Some (Frag \<lparr>frag_sequence_number = n, frag_payload_size = ps, frag_fragment_offset = off,
                     frag_fragment_number = i, frag_n_fragments = k, frag_channel = channel,
                     frag_data = data\<rparr>))"
  using assms by (simp only: parse_datagram_iff) (simp add: encode_fragment_eq split: option.splits)

text \<open>Evaluates the well-formedness of a literal channel name.\<close>

lemmas channel_eval = wf_channel_def valid_str_def as_bytes_def byte_of_char_def valid_utf8.simps

section \<open>Properties\<close>

text \<open>Claim C3. The parser never panics, and it accepts exactly the datagrams that the encoders
  produce from well-formed packets: a datagram parses to \<open>p\<close> if and only if it is the encoding of
  \<open>p\<close> and \<open>p\<close> is well-formed (valid UTF-8 channel without NUL, present exactly in short messages
  and in fragment 0).\<close>

theorem parse_accepts_exactly_encodings:
  "(\<exists>res. parse_datagram buf = Ret res) \<and>
   (parse_datagram buf = Ret (Some p) \<longleftrightarrow> wf_packet p \<and> buf = encode_packet p)"
  using parse_datagram_total [of buf] parse_datagram_iff by blast

text \<open>Round trip of a short message: what \<open>encode_short_message\<close> writes for a channel
  without NUL parses back to the same sequence number, channel and data, whatever the buffer held
  before.\<close>

lemma short_message_roundtrip:
  assumes "wf_channel channel"
  shows "parse_datagram (encode_short_message buf n channel data) =
    Ret (Some (Short \<lparr>sm_sequence_number = n, sm_channel = channel, sm_data = data\<rparr>))"
  using assms by (simp only: parse_datagram_iff) (simp add: encode_short_message_eq)

lemma short_message_roundtrip_example:
  "parse_datagram (encode_short_message [9, 9] 42 ''TEST'' [1, 2, 3, 4]) =
    Ret (Some (Short \<lparr>sm_sequence_number = 42, sm_channel = ''TEST'', sm_data = [1, 2, 3, 4]\<rparr>))"
  by (rule short_message_roundtrip)
    (simp add: channel_eval)

text \<open>Claim C36. The encoder does not reject a channel name with an interior NUL: such a message
  parses back under the name cut at the NUL, and the rest of the name leaks into the payload.\<close>

theorem nul_in_channel_corrupts:
  assumes "wf_channel name"
  shows "parse_datagram (encode_short_message buf n (name @ CHR 0x00 # rest) data) =
    Ret (Some (Short \<lparr>sm_sequence_number = n, sm_channel = name,
                      sm_data = as_bytes rest @ 0 # data\<rparr>))"
  using assms by (simp only: parse_datagram_iff) (simp add: encode_short_message_eq as_bytes_def)

theorem nul_in_channel_corrupts_witness:
  "parse_datagram (encode_short_message [] 7 (''CMD'' @ CHR 0x00 # ''X'') [1]) =
    Ret (Some (Short \<lparr>sm_sequence_number = 7, sm_channel = ''CMD'', sm_data = as_bytes ''X'' @ 0 # [1]\<rparr>))"
  by (rule nul_in_channel_corrupts)
    (simp add: channel_eval)

end
