(* ===== verification/Lcm_Types.thy ===== *)
theory Lcm_Types
  imports Rust_Str
begin

text \<open>
  The data of \<open>lcm-transport/src/types.rs\<close> and of the standard library that the transport
  shares: messages, addresses, time, and the LCM URL with its parser \<open>LcmUrl::parse\<close>.
\<close>

section \<open>Messages\<close>

record LcmMessage =
  msg_channel :: string
  msg_sequence_number :: u32
  msg_data :: bytes

section \<open>Addresses and time\<close>

datatype Ipv4Addr = Ipv4Addr u8 u8 u8 u8

text \<open>\<open>std::net::SocketAddr\<close>; the IPv6 case carries address, port, flow info and scope id.\<close>

datatype SocketAddr =
    SocketAddrV4 Ipv4Addr u16
  | SocketAddrV6 "128 word" u16 u32 u32

text \<open>Clock readings and durations count nanoseconds. \<open>duration_since\<close> saturates at zero.\<close>

type_synonym Instant = nat
type_synonym Duration = nat

definition duration_since :: "Instant \<Rightarrow> Instant \<Rightarrow> Duration" where
  "duration_since now earlier = (if earlier \<le> now then now - earlier else 0)"

definition from_secs :: "nat \<Rightarrow> Duration" where
  "from_secs n = n * 1000000000"

section \<open>LCM URLs\<close>

record LcmUrl =
  multicast_group :: Ipv4Addr
  port :: u16
  ttl :: u32
  recv_buf_size :: "usize option"

definition LcmUrl_default :: LcmUrl where
  "LcmUrl_default = \<lparr>multicast_group = Ipv4Addr 239 255 76 67, port = 7667, ttl = 0,
                     recv_buf_size = None\<rparr>"

text \<open>The error strings of \<open>parse\<close>, by the message and the values it prints.\<close>

datatype UrlError =
    BadScheme string
  | NoGroupPort string
  | InvalidGroup string
  | InvalidPort string ParseIntError
  | InvalidTtl string ParseIntError
  | InvalidRecvBufSize string ParseIntError

text \<open>
  \<open>Ipv4Addr::from_str\<close>: four runs of one to three digits, each below 256 and without a
  leading zero, separated by single dots, and nothing after the last.
\<close>

fun digits_value :: "nat \<Rightarrow> string \<Rightarrow> nat" where
  "digits_value acc [] = acc"
| "digits_value acc (c # cs) = digits_value (acc * 10 + digit_value c) cs"

definition read_octet :: "string \<Rightarrow> (u8 \<times> string) option" where
  "read_octet s =
     (let ds = takeWhile is_digit s in
      if ds = [] \<or> 3 < length ds then None
      else if hd ds = CHR ''0'' \<and> 1 < length ds then None
      else if digits_value 0 ds < 256
      then Some (word_of_nat (digits_value 0 ds), dropWhile is_digit s)
      else None)"

definition read_dot :: "string \<Rightarrow> string option" where
  "read_dot s = (case s of [] \<Rightarrow> None | c # r \<Rightarrow> if c = CHR ''.'' then Some r else None)"

definition parse_ipv4 :: "string \<Rightarrow> Ipv4Addr option" where
  "parse_ipv4 s =
     (if 15 < length s then None
      else do {
        (a, s) \<leftarrow> read_octet s;
        s \<leftarrow> read_dot s;
        (b, s) \<leftarrow> read_octet s;
        s \<leftarrow> read_dot s;
        (c, s) \<leftarrow> read_octet s;
        s \<leftarrow> read_dot s;
        (d, s) \<leftarrow> read_octet s;
        if s = [] then Some (Ipv4Addr a b c d) else None })"

text \<open>The loop over the query parameters, on the pair of the values read so far.\<close>

fun parse_params :: "string list \<Rightarrow> u32 \<times> usize option \<Rightarrow> UrlError + (u32 \<times> usize option)" where
  "parse_params [] (t, rbs) = Inr (t, rbs)"
| "parse_params (param # params) (t, rbs) =
     (case split_once (CHR ''='') param of
        None \<Rightarrow> parse_params params (t, rbs)
      | Some (key, value) \<Rightarrow>
          if key = ''ttl'' then
            (case parse_uint (2 ^ 32) value of
               Inl e \<Rightarrow> Inl (InvalidTtl value e)
             | Inr n \<Rightarrow> parse_params params (word_of_nat n, rbs))
          else if key = ''recv_buf_size'' then
            (case parse_uint (2 ^ 64) value of
               Inl e \<Rightarrow> Inl (InvalidRecvBufSize value e)
             | Inr n \<Rightarrow> parse_params params (t, Some n))
          else parse_params params (t, rbs))"

definition LcmUrl_parse :: "string \<Rightarrow> UrlError + LcmUrl" where
  "LcmUrl_parse url =
     (let url = trim url in
      case strip_prefix ''udpm://'' url of
        None \<Rightarrow> Inl (BadScheme url)
      | Some rest \<Rightarrow>
          let (host_port, query) =
            (case split_once (CHR ''?'') rest of
               Some (hp, q) \<Rightarrow> (hp, Some q)
             | None \<Rightarrow> (rest, None))
          in case rsplit_once (CHR '':'') host_port of
               None \<Rightarrow> Inl (NoGroupPort url)
             | Some (group_str, port_str) \<Rightarrow>
                 (case parse_ipv4 group_str of
                    None \<Rightarrow> Inl (InvalidGroup group_str)
                  | Some grp \<Rightarrow>
                      (case parse_uint (2 ^ 16) port_str of
                         Inl e \<Rightarrow> Inl (InvalidPort port_str e)
                       | Inr p \<Rightarrow>
                           (case (case query of
                                    None \<Rightarrow> Inr (0, None)
                                  | Some q \<Rightarrow> parse_params (split_char (CHR ''&'') q) (0, None)) of
                              Inl e \<Rightarrow> Inl e
                            | Inr (t, rbs) \<Rightarrow>
                                Inr \<lparr>multicast_group = grp, port = word_of_nat p, ttl = t,
                                     recv_buf_size = rbs\<rparr>))))"

section \<open>Rendering a URL\<close>

fun render_ipv4 :: "Ipv4Addr \<Rightarrow> string" where
  "render_ipv4 (Ipv4Addr a b c d) =
     decimal (unat a) @ ''.'' @ decimal (unat b) @ ''.'' @ decimal (unat c) @ ''.'' @ decimal (unat d)"

definition render_query :: "LcmUrl \<Rightarrow> string" where
  "render_query u = ''ttl='' @ decimal (unat (ttl u)) @
     (case recv_buf_size u of None \<Rightarrow> [] | Some n \<Rightarrow> ''&recv_buf_size='' @ decimal n)"

definition render_url :: "LcmUrl \<Rightarrow> string" where
  "render_url u = ''udpm://'' @ render_ipv4 (multicast_group u) @ '':'' @ decimal (unat (port u)) @
     ''?'' @ render_query u"

lemma digits_value_parse: "parse_digits limit acc s = Inr v \<Longrightarrow> digits_value acc s = v"
  by (induction s arbitrary: acc) (auto split: if_splits)

lemma not_digit_dot [simp]: "\<not> is_digit CHR ''.''"
  by (simp add: is_digit_def)

lemma takeWhile_decimal:
  assumes "s = [] \<or> \<not> is_digit (hd s)"
  shows "takeWhile is_digit (decimal n @ s) = decimal n" and "dropWhile is_digit (decimal n @ s) = s"
  using assms decimal_digits [of _ n]
  by (auto simp: takeWhile_append dropWhile_append takeWhile_eq_Nil_iff dropWhile_eq_self_iff)

lemma read_octet_decimal:
  assumes "s = [] \<or> \<not> is_digit (hd s)"
  shows "read_octet (decimal (unat (b :: u8)) @ s) = Some (b, s)"
proof -
  have b: "unat b < 256" using unsigned_less [of b] by simp
  then have "length (decimal (unat b)) \<le> 3" by (simp add: length_decimal)
  moreover have "digits_value 0 (decimal (unat b)) = unat b"
    using digits_value_parse [OF parse_digits_decimal [OF b]] .
  moreover have "\<not> (hd (decimal (unat b)) = CHR ''0'' \<and> 1 < length (decimal (unat b)))"
    using hd_decimal [of "unat b"] by (cases "unat b = 0") (auto simp: decimal_small)
  ultimately show ?thesis
    using b by (simp add: read_octet_def Let_def takeWhile_decimal [OF assms] del: unat_gt_0)
qed

lemma parse_ipv4_render: "parse_ipv4 (render_ipv4 ip) = Some ip"
proof (cases ip)
  case (Ipv4Addr a b c d)
  have len: "length (decimal (unat x)) \<le> 3" for x :: u8
  proof -
    have "unat x < 256" using unsigned_less [of x] by simp
    then show ?thesis by (intro length_decimal) simp
  qed
  have "length (render_ipv4 ip) \<le> 15"
    using len [of a] len [of b] len [of c] len [of d] by (simp add: Ipv4Addr)
  moreover have "read_octet (decimal (unat d)) = Some (d, [])"
    using read_octet_decimal [of "[]" d] by simp
  ultimately show ?thesis
    by (simp add: Ipv4Addr parse_ipv4_def read_octet_decimal read_dot_def)
qed

lemma not_in_decimal: "\<not> is_digit c \<Longrightarrow> c \<notin> set (decimal n)"
  using decimal_digits by blast

lemma not_digit_separators [simp]:
  "\<not> is_digit CHR '':''" "\<not> is_digit CHR ''?''" "\<not> is_digit CHR ''&''" "\<not> is_digit CHR ''=''"
  by (simp_all add: is_digit_def)

lemma parse_params_render:
  assumes "case recv_buf_size u of None \<Rightarrow> True | Some n \<Rightarrow> n < 2 ^ 64"
  shows "parse_params (split_char (CHR ''&'') (render_query u)) (0, None) = Inr (ttl u, recv_buf_size u)"
proof -
  have ttl: "split_once CHR ''='' (''ttl='' @ decimal n) = Some (''ttl'', decimal n)" for n
    using split_once_append [of "CHR ''=''" "''ttl''" "decimal n"] by simp
  have rbs: "split_once CHR ''='' (''recv_buf_size='' @ decimal n) = Some (''recv_buf_size'', decimal n)" for n
    using split_once_append [of "CHR ''=''" "''recv_buf_size''" "decimal n"] by simp
  have bound: "unat (ttl u) < 2 ^ 32" using unsigned_less [of "ttl u"] by simp
  show ?thesis
  proof (cases "recv_buf_size u")
    case None
    then have "split_char CHR ''&'' (render_query u) = [''ttl='' @ decimal (unat (ttl u))]"
      by (subst split_char_no_sep) (auto simp: render_query_def not_in_decimal)
    with None ttl bound show ?thesis by (simp add: parse_uint_decimal)
  next
    case (Some n)
    have "split_char CHR ''&'' ((''ttl='' @ decimal (unat (ttl u))) @ CHR ''&'' # ''recv_buf_size='' @ decimal n)
        = [''ttl='' @ decimal (unat (ttl u)), ''recv_buf_size='' @ decimal n]"
      using split_char_append [of "CHR ''&''" "''ttl='' @ decimal (unat (ttl u))"]
        split_char_no_sep [of "CHR ''&''" "''recv_buf_size='' @ decimal n"]
      by (simp add: not_in_decimal)
    with Some have "split_char CHR ''&'' (render_query u) =
        [''ttl='' @ decimal (unat (ttl u)), ''recv_buf_size='' @ decimal n]"
      by (simp add: render_query_def)
    with Some ttl rbs bound assms show ?thesis by (simp add: parse_uint_decimal)
  qed
qed

text \<open>What a successful parse says of the text.\<close>

lemma split_host_query:
  "(case split_once (CHR ''?'') rest of Some (hp, q) \<Rightarrow> (hp, Some q) | None \<Rightarrow> (rest, None)) = (hp, query) \<Longrightarrow>
     rest = hp @ (case query of None \<Rightarrow> [] | Some q \<Rightarrow> CHR ''?'' # q) \<and> CHR ''?'' \<notin> set hp"
  by (auto simp: split_once_Some_iff split_once_None split: option.splits)

lemma rsplit_once_Some_iff: "rsplit_once c s = Some (a, b) \<longleftrightarrow> c \<notin> set b \<and> s = a @ c # b"
proof -
  have "rsplit_once c s = Some (a, b) \<longleftrightarrow> split_once c (rev s) = Some (rev b, rev a)"
    by (auto simp: rsplit_once_def)
  also have "\<dots> \<longleftrightarrow> c \<notin> set b \<and> rev s = rev (a @ c # b)" by (simp add: split_once_Some_iff)
  finally show ?thesis by (simp only: rev_is_rev_conv)
qed

lemma parse_rendered:
  assumes "case recv_buf_size u of None \<Rightarrow> True | Some n \<Rightarrow> n < 2 ^ 64"
  shows "LcmUrl_parse (replicate m CHR '' '' @ render_url u @ replicate n CHR '' '') = Inr u"
proof -
  have last: "\<exists>s n. render_url u = s @ decimal n"
  proof (cases "recv_buf_size u")
    case None
    then have "render_url u = (''udpm://'' @ render_ipv4 (multicast_group u) @ '':'' @
      decimal (unat (port u)) @ ''?ttl='') @ decimal (unat (ttl u))"
      by (simp add: render_url_def render_query_def)
    then show ?thesis by blast
  next
    case (Some k)
    then have "render_url u = (''udpm://'' @ render_ipv4 (multicast_group u) @ '':'' @
      decimal (unat (port u)) @ ''?ttl='' @ decimal (unat (ttl u)) @ ''&recv_buf_size='') @ decimal k"
      by (simp add: render_url_def render_query_def)
    then show ?thesis by blast
  qed
  then obtain s d where d: "render_url u = s @ [d]" "is_digit d"
    using decimal_digits by (metis append_assoc append_butlast_last_id decimal_not_Nil last_in_set)
  have "trim (replicate m CHR '' '' @ render_url u @ replicate n CHR '' '') = render_url u"
  proof (rule trim_blanks [where c = "CHR ''u''" and d = d])
    show "render_url u = CHR ''u'' # tl (render_url u)" by (simp add: render_url_def)
    show "32 < (of_char d :: nat)" and "(of_char d :: nat) < 128"
      using d(2) by (simp_all add: is_digit_def)
  qed (simp_all add: d(1))
  moreover have "CHR ''?'' \<notin> set (render_ipv4 (multicast_group u) @ '':'' @ decimal (unat (port u)))"
    by (cases "multicast_group u") (simp add: not_in_decimal)
  then have "split_once CHR ''?'' ((render_ipv4 (multicast_group u) @ '':'' @ decimal (unat (port u))) @
      CHR ''?'' # render_query u) =
      Some (render_ipv4 (multicast_group u) @ '':'' @ decimal (unat (port u)), render_query u)"
    by (rule split_once_append)
  moreover have "rsplit_once CHR '':'' (render_ipv4 (multicast_group u) @ '':'' @ decimal (unat (port u)))
      = Some (render_ipv4 (multicast_group u), decimal (unat (port u)))"
    by (simp add: rsplit_once_Some_iff not_in_decimal)
  moreover have "unat (port u) < 2 ^ 16" using unsigned_less [of "port u"] by simp
  moreover have "render_url u = ''udpm://'' @ (render_ipv4 (multicast_group u) @ '':'' @
      decimal (unat (port u))) @ CHR ''?'' # render_query u"
    by (simp add: render_url_def)
  ultimately show ?thesis
    using parse_params_render [OF assms]
    by (simp only: LcmUrl_parse_def Let_def strip_prefix_append option.case prod.case
        parse_ipv4_render parse_uint_decimal sum.case) simp
qed

section \<open>Properties\<close>

text \<open>Claim C23. Every LCM URL can be written down and read back: the text with the group, the port,
  the ttl and, where there is one, the buffer size as query parameters, with blanks around it, parses
  to exactly that URL.\<close>

theorem url_roundtrip:
  assumes "case recv_buf_size u of None \<Rightarrow> True | Some n \<Rightarrow> n < 2 ^ 64"
  shows "LcmUrl_parse (replicate m CHR '' '' @ render_url u @ replicate n CHR '' '') = Inr u"
  using assms by (rule parse_rendered)

theorem url_roundtrip_witness:
  "LcmUrl_parse (replicate 2 CHR '' '' @ render_url
      \<lparr>multicast_group = Ipv4Addr 239 255 76 67, port = 7667, ttl = 1, recv_buf_size = Some 2097152\<rparr>
      @ replicate 1 CHR '' '') =
    Inr \<lparr>multicast_group = Ipv4Addr 239 255 76 67, port = 7667, ttl = 1, recv_buf_size = Some 2097152\<rparr>"
  by (rule url_roundtrip) simp

text \<open>What \<open>LcmUrl::parse\<close> accepts is a URL: after trimming, the scheme \<open>udpm://\<close>, an
  IPv4 group, the last colon before the first question mark, and a port; without a query the ttl
  is 0 and no buffer size is set, and with one both come from the parameters. A buffer size fits
  64 bits.\<close>

lemma url_accepted:
  assumes "LcmUrl_parse url = Inr u"
  shows "\<exists>g p query. trim url = ''udpm://'' @ g @ '':'' @ p @
      (case query of None \<Rightarrow> [] | Some q \<Rightarrow> CHR ''?'' # q) \<and>
    CHR '':'' \<notin> set p \<and> CHR ''?'' \<notin> set (g @ p) \<and>
    parse_ipv4 g = Some (multicast_group u) \<and> parse_uint (2 ^ 16) p = Inr (unat (port u)) \<and>
    (case query of None \<Rightarrow> ttl u = 0 \<and> recv_buf_size u = None
     | Some q \<Rightarrow> parse_params (split_char (CHR ''&'') q) (0, None) = Inr (ttl u, recv_buf_size u))"
proof -
  from assms obtain rest where rest: "strip_prefix ''udpm://'' (trim url) = Some rest"
    by (auto simp: LcmUrl_parse_def Let_def split: option.splits)
  obtain hp query where hq: "(case split_once (CHR ''?'') rest of
      Some (hp, q) \<Rightarrow> (hp, Some q) | None \<Rightarrow> (rest, None)) = (hp, query)"
    by fastforce
  from assms obtain g p where gp: "rsplit_once CHR '':'' hp = Some (g, p)"
    unfolding LcmUrl_parse_def Let_def rest option.case hq prod.case by (auto split: option.splits)
  from assms have "parse_ipv4 g = Some (multicast_group u)" "parse_uint (2 ^ 16) p = Inr (unat (port u))"
    "case query of None \<Rightarrow> ttl u = 0 \<and> recv_buf_size u = None
     | Some q \<Rightarrow> parse_params (split_char (CHR ''&'') q) (0, None) = Inr (ttl u, recv_buf_size u)"
    unfolding LcmUrl_parse_def Let_def rest option.case hq prod.case gp
    using parse_uint_bound [of "2 ^ 16" p]
    by (auto split: option.splits sum.splits prod.splits)
  moreover have "trim url = ''udpm://'' @ rest" using rest by (simp add: strip_prefix_Some_iff)
  ultimately show ?thesis
    using split_host_query [OF hq] gp [unfolded rsplit_once_Some_iff]
    by (intro exI [of _ g] exI [of _ p] exI [of _ query]) simp
qed

lemma url_accepted_example:
  "\<exists>g p query. trim (render_url LcmUrl_default) = ''udpm://'' @ g @ '':'' @ p @
      (case query of None \<Rightarrow> [] | Some q \<Rightarrow> CHR ''?'' # q) \<and> parse_ipv4 g = Some (Ipv4Addr 239 255 76 67)"
proof -
  have "LcmUrl_parse (render_url LcmUrl_default) = Inr LcmUrl_default"
    using parse_rendered [of LcmUrl_default 0 0] by (simp add: LcmUrl_default_def)
  from url_accepted [OF this] show ?thesis by (auto simp: LcmUrl_default_def)
qed

end
