(* ===== verification/Reassembly.thy ===== *)
theory Reassembly
  imports Protocol Lcm_Types Interfaces
begin

text \<open>
  Fragment reassembly, \<open>lcm-transport/src/fragment.rs\<close>: the pending fragment sets keyed by
  sender and sequence number, the expiry of stale sets, and \<open>process\<close>, which merges one
  fragment. The hash map is a HOL map; the clock readings the code takes (one in
  \<open>expire_stale\<close>, one when a set is created) are arguments.
\<close>

section \<open>State\<close>

type_synonym FragmentKey = "SocketAddr \<times> u32"

record FragmentSet =
  fs_channel :: string
  fs_payload_size :: u32
  fs_n_fragments :: u16
  fragments_received :: u16
  fs_buffer :: bytes
  received_mask :: "bool list"
  created_at :: Instant

record FragmentReassembler =
  pending :: "FragmentKey \<rightharpoonup> FragmentSet"
  timeout :: Duration
  max_message_size :: usize

definition FragmentReassembler_new :: "Duration \<Rightarrow> usize \<Rightarrow> FragmentReassembler" where
  "FragmentReassembler_new t m = \<lparr>pending = Map.empty, timeout = t, max_message_size = m\<rparr>"

section \<open>Operations\<close>

text \<open>\<open>retain\<close> keeps the sets whose age does not exceed the timeout.\<close>

definition expire_stale :: "FragmentReassembler \<Rightarrow> Instant \<Rightarrow> FragmentReassembler" where
  "expire_stale r now =
     r\<lparr>pending := (\<lambda>key. case pending r key of
                      None \<Rightarrow> None
                    | Some fs \<Rightarrow>
                        if duration_since now (created_at fs) > timeout r then None else Some fs)\<rparr>"

text \<open>The set the closure of \<open>or_insert_with\<close> builds.\<close>

definition new_set :: "Fragment \<Rightarrow> Instant \<Rightarrow> FragmentSet" where
  "new_set fragment now =
     \<lparr>fs_channel = [], fs_payload_size = frag_payload_size fragment,
      fs_n_fragments = frag_n_fragments fragment, fragments_received = 0,
      fs_buffer = replicate (unat (frag_payload_size fragment)) 0,
      received_mask = replicate (unat (frag_n_fragments fragment)) False,
      created_at = now\<rparr>"

text \<open>The channel name is stored before the fragment is checked against the set.\<close>

definition store_channel :: "Fragment \<Rightarrow> FragmentSet \<Rightarrow> FragmentSet" where
  "store_channel fragment fs =
     (if frag_fragment_number fragment = 0 then
        (case frag_channel fragment of
           Some channel \<Rightarrow> fs\<lparr>fs_channel := channel\<rparr>
         | None \<Rightarrow> fs)
      else fs)"

text \<open>
  \<open>process\<close>: \<open>now\<close> is the clock reading of \<open>expire_stale\<close>, \<open>now'\<close> the one taken when a
  set is created. Writes through the mutable reference to the set are writes to the map.
\<close>

definition process ::
  "FragmentReassembler \<Rightarrow> Fragment \<Rightarrow> SocketAddr \<Rightarrow> Instant \<Rightarrow> Instant
     \<Rightarrow> (FragmentReassembler \<times> LcmMessage option) may_panic" where
  "process r fragment sender now now' =
     (let r = expire_stale r now;
          payload_size = unat (frag_payload_size fragment)
      in if payload_size > max_message_size r then Ret (r, None)
      else
        let key = (sender, frag_sequence_number fragment);
            fs = (case pending r key of Some fs \<Rightarrow> fs | None \<Rightarrow> new_set fragment now');
            fs = store_channel fragment fs;
            r = r\<lparr>pending := (pending r)(key \<mapsto> fs)\<rparr>
        in if frag_payload_size fragment \<noteq> fs_payload_size fs
              \<or> frag_n_fragments fragment \<noteq> fs_n_fragments fs then Ret (r, None)
        else
          let frag_idx = unat (frag_fragment_number fragment)
          in if frag_idx \<ge> length (received_mask fs) then Ret (r, None)
          else do {
            dup \<leftarrow> index (received_mask fs) frag_idx;
            if dup then Ret (r, None)
            else
              let offset = unat (frag_fragment_offset fragment);
                  end_pos = offset + length (frag_data fragment)
              in if end_pos > length (fs_buffer fs) then Ret (r, None)
              else do {
                buffer \<leftarrow> copy_into (fs_buffer fs) offset end_pos (frag_data fragment);
                received \<leftarrow> u16_add (fragments_received fs) 1;
                let fs = fs\<lparr>fs_buffer := buffer,
                            received_mask := (received_mask fs)[frag_idx := True],
                            fragments_received := received\<rparr>;
                    r = r\<lparr>pending := (pending r)(key \<mapsto> fs)\<rparr>
                in if fragments_received fs = fs_n_fragments fs then
                     (case pending r key of
                        None \<Rightarrow> Panic
                      | Some fs \<Rightarrow>
                          Ret (r\<lparr>pending := (pending r)(key := None)\<rparr>,
                               Some \<lparr>msg_channel = fs_channel fs,
                                     msg_sequence_number = frag_sequence_number fragment,
                                     msg_data = fs_buffer fs\<rparr>))
                   else Ret (r, None) } })"

section \<open>The invariant of a fragment set\<close>

text \<open>
  The buffer and the mask have the sizes the first fragment announced, the counter counts the
  mask, and a set that is still pending misses at least one fragment (unless it announced none).
\<close>

definition set_ok :: "FragmentSet \<Rightarrow> bool" where
  "set_ok fs \<longleftrightarrow>
     length (fs_buffer fs) = unat (fs_payload_size fs) \<and>
     length (received_mask fs) = unat (fs_n_fragments fs) \<and>
     unat (fragments_received fs) = count_true (received_mask fs) \<and>
     (fragments_received fs < fs_n_fragments fs \<or> fs_n_fragments fs = 0)"

definition reassembler_ok :: "FragmentReassembler \<Rightarrow> bool" where
  "reassembler_ok r \<longleftrightarrow> finite (dom (pending r)) \<and>
     (\<forall>key fs. pending r key = Some fs \<longrightarrow>
        set_ok fs \<and> unat (fs_payload_size fs) \<le> max_message_size r)"

lemma reassembler_okI:
  assumes "finite (dom (pending r))"
    and "\<And>key fs. pending r key = Some fs \<Longrightarrow> set_ok fs"
    and "\<And>key fs. pending r key = Some fs \<Longrightarrow> unat (fs_payload_size fs) \<le> max_message_size r"
  shows "reassembler_ok r"
  using assms unfolding reassembler_ok_def by blast

lemma reassembler_okD:
  assumes "reassembler_ok r"
  shows "finite (dom (pending r))"
    and "pending r key = Some fs \<Longrightarrow> set_ok fs"
    and "pending r key = Some fs \<Longrightarrow> unat (fs_payload_size fs) \<le> max_message_size r"
  using assms unfolding reassembler_ok_def by blast+

named_theorems set_update \<open>fields of a set after an update by the code\<close>

lemma set_ok_new [set_update]: "set_ok (new_set f now)"
  by (auto simp: set_ok_def new_set_def word_gt_0)

lemma store_channel_fields [set_update]:
  "fs_payload_size (store_channel f fs) = fs_payload_size fs"
  "fs_n_fragments (store_channel f fs) = fs_n_fragments fs"
  "fragments_received (store_channel f fs) = fragments_received fs"
  "fs_buffer (store_channel f fs) = fs_buffer fs"
  "received_mask (store_channel f fs) = received_mask fs"
  "created_at (store_channel f fs) = created_at fs"
  by (auto simp: store_channel_def split: option.splits)

lemma set_ok_store_channel [set_update]: "set_ok (store_channel f fs) = set_ok fs"
  by (simp add: set_ok_def set_update)

text \<open>When \<open>process\<close> merges a fragment into a set, and the set it leaves.\<close>

definition accepts :: "Fragment \<Rightarrow> FragmentSet \<Rightarrow> bool" where
  "accepts f fs \<longleftrightarrow>
     frag_payload_size f = fs_payload_size fs \<and> frag_n_fragments f = fs_n_fragments fs \<and>
     unat (frag_fragment_number f) < length (received_mask fs) \<and>
     \<not> received_mask fs ! unat (frag_fragment_number f) \<and>
     unat (frag_fragment_offset f) + length (frag_data f) \<le> length (fs_buffer fs)"

definition merged :: "Fragment \<Rightarrow> FragmentSet \<Rightarrow> FragmentSet" where
  "merged f fs =
     fs\<lparr>fs_buffer := take (unat (frag_fragment_offset f)) (fs_buffer fs) @ frag_data f
          @ drop (unat (frag_fragment_offset f) + length (frag_data f)) (fs_buffer fs),
        received_mask := (received_mask fs)[unat (frag_fragment_number f) := True],
        fragments_received := fragments_received fs + 1\<rparr>"

definition message_of :: "Fragment \<Rightarrow> FragmentSet \<Rightarrow> LcmMessage" where
  "message_of f fs = \<lparr>msg_channel = fs_channel fs, msg_sequence_number = frag_sequence_number f,
                      msg_data = fs_buffer fs\<rparr>"

lemma accepts_counter:
  assumes "set_ok fs" and "accepts f fs"
  shows "unat (fragments_received fs) + 1 \<le> unat (fs_n_fragments fs)"
    and "unat (fragments_received fs + 1) = unat (fragments_received fs) + 1"
    and "unat (fragments_received fs) + 1 < 65536"
proof -
  have "count_true (received_mask fs) < length (received_mask fs)"
    using assms(2) by (intro count_true_less) (auto simp: accepts_def)
  then show "unat (fragments_received fs) + 1 \<le> unat (fs_n_fragments fs)"
    using assms(1) by (simp add: set_ok_def)
  then show "unat (fragments_received fs) + 1 < 65536"
    using unat_u16_less [of "fs_n_fragments fs"] by simp
  then show "unat (fragments_received fs + 1) = unat (fragments_received fs) + 1"
    by (simp add: unat_word_ariths)
qed

lemma set_ok_merged:
  assumes "set_ok fs" and "accepts f fs" and "fragments_received fs + 1 \<noteq> fs_n_fragments fs"
  shows "set_ok (merged f fs)"
proof -
  note cnt = accepts_counter [OF assms(1,2)]
  have "count_true ((received_mask fs)[unat (frag_fragment_number f) := True])
      = Suc (count_true (received_mask fs))"
    using assms(2) by (intro count_true_update) (auto simp: accepts_def)
  moreover have "fragments_received fs + 1 < fs_n_fragments fs"
    using cnt assms(3) by (simp add: word_less_nat_alt word_unat_eq_iff)
  ultimately show ?thesis
    using assms(1,2) cnt by (auto simp: set_ok_def merged_def accepts_def)
qed

section \<open>The functional behaviour of process\<close>

definition key_of :: "Fragment \<Rightarrow> SocketAddr \<Rightarrow> FragmentKey" where
  "key_of f sender = (sender, frag_sequence_number f)"

text \<open>The set \<open>process\<close> works on: the pending one or a new one, with the channel stored.\<close>

definition touched :: "FragmentReassembler \<Rightarrow> Fragment \<Rightarrow> SocketAddr \<Rightarrow> Instant \<Rightarrow> FragmentSet" where
  "touched r f sender now' =
     store_channel f (case pending r (key_of f sender) of Some fs \<Rightarrow> fs | None \<Rightarrow> new_set f now')"

definition put_set :: "FragmentReassembler \<Rightarrow> FragmentKey \<Rightarrow> FragmentSet option \<Rightarrow> FragmentReassembler" where
  "put_set r key fs = r\<lparr>pending := (pending r)(key := fs)\<rparr>"

lemma put_set_fields [simp]:
  "pending (put_set r key fs) = (pending r)(key := fs)"
  "timeout (put_set r key fs) = timeout r"
  "max_message_size (put_set r key fs) = max_message_size r"
  by (simp_all add: put_set_def)

lemma expire_stale_fields [simp]:
  "timeout (expire_stale r now) = timeout r"
  "max_message_size (expire_stale r now) = max_message_size r"
  by (simp_all add: expire_stale_def)

lemma pending_expire_stale:
  "pending (expire_stale r now) key = Some fs \<longleftrightarrow>
     pending r key = Some fs \<and> duration_since now (created_at fs) \<le> timeout r"
  by (auto simp: expire_stale_def split: option.splits)

lemma reassembler_ok_expire_stale: "reassembler_ok r \<Longrightarrow> reassembler_ok (expire_stale r now)"
proof -
  assume ok: "reassembler_ok r"
  have "dom (pending (expire_stale r now)) \<subseteq> dom (pending r)"
    using pending_expire_stale by fastforce
  then have "finite (dom (pending (expire_stale r now)))"
    using reassembler_okD(1) [OF ok] finite_subset by blast
  then show ?thesis
    using reassembler_okD(2,3) [OF ok] by (intro reassembler_okI) (auto simp: pending_expire_stale)
qed

lemma reassembler_ok_put_set:
  assumes "reassembler_ok r"
    and "\<And>fs'. fs = Some fs' \<Longrightarrow> set_ok fs' \<and> unat (fs_payload_size fs') \<le> max_message_size r"
  shows "reassembler_ok (put_set r key fs)"
  using assms(2) reassembler_okD [OF assms(1)]
  by (intro reassembler_okI) (auto split: if_splits)

lemma touched_ok:
  assumes "reassembler_ok r" and "unat (frag_payload_size f) \<le> max_message_size r"
  shows "set_ok (touched r f sender now')"
    and "unat (fs_payload_size (touched r f sender now')) \<le> max_message_size r"
  using assms(2) reassembler_okD(2,3) [OF assms(1), of "key_of f sender"]
  by (auto simp: touched_def set_update split: option.splits) (simp add: new_set_def)

text \<open>
  \<open>process\<close> in one equation: an oversized fragment only expires stale sets, a rejected one also
  leaves its touched set behind, a merged one updates the set, and the last one removes the set
  and returns the message.
\<close>

lemma process_eq:
  fixes f :: Fragment and sender :: SocketAddr and now now' :: Instant
  assumes ok: "reassembler_ok r"
  defines "r1 \<equiv> expire_stale r now"
  defines "fs \<equiv> touched r1 f sender now'"
  shows "process r f sender now now' =
    (if max_message_size r < unat (frag_payload_size f) then Ret (r1, None)
     else if \<not> accepts f fs then Ret (put_set r1 (key_of f sender) (Some fs), None)
     else if fragments_received fs + 1 = fs_n_fragments fs
     then Ret (put_set r1 (key_of f sender) None, Some (message_of f (merged f fs)))
     else Ret (put_set r1 (key_of f sender) (Some (merged f fs)), None))"
proof (cases "max_message_size r < unat (frag_payload_size f)")
  case True
  then show ?thesis by (simp add: process_def r1_def)
next
  case False
  then have fs_ok: "set_ok fs"
    using ok unfolding fs_def r1_def by (intro touched_ok) (auto intro: reassembler_ok_expire_stale)
  have fs_eq: "store_channel f
      (case pending r1 (sender, frag_sequence_number f) of None \<Rightarrow> new_set f now' | Some fs \<Rightarrow> fs) = fs"
    by (simp add: fs_def touched_def key_of_def)
  have max: "max_message_size r1 = max_message_size r" by (simp add: r1_def)
  show ?thesis
  proof (cases "accepts f fs")
    case acc: True
    then have mask: "index (received_mask fs) (unat (frag_fragment_number f)) = Ret False"
      and copy: "copy_into (fs_buffer fs) (unat (frag_fragment_offset f))
        (unat (frag_fragment_offset f) + length (frag_data f)) (frag_data f) = Ret (fs_buffer (merged f fs))"
      by (auto simp: accepts_def in_range merged_def)
    have count: "u16_add (fragments_received fs) 1 = Ret (fragments_received fs + 1)"
      using accepts_counter(3) [OF fs_ok acc] by (intro u16_add_in_range) simp
    from False acc mask copy count show ?thesis
      by (auto simp: process_def Let_def fs_eq accepts_def key_of_def put_set_def message_of_def
          merged_def max simp flip: r1_def)
  next
    case rej: False
    from False rej show ?thesis
      by (auto simp: process_def Let_def fs_eq accepts_def key_of_def put_set_def in_range not_le max
          simp flip: r1_def)
  qed
qed

lemma process_ok:
  assumes "reassembler_ok r"
  shows "\<exists>r' out. process r f sender now now' = Ret (r', out) \<and> reassembler_ok r' \<and>
    timeout r' = timeout r \<and> max_message_size r' = max_message_size r"
proof -
  let ?r1 = "expire_stale r now"
  let ?fs = "touched ?r1 f sender now'"
  have r1: "reassembler_ok ?r1" using assms by (rule reassembler_ok_expire_stale)
  show ?thesis
  proof (cases "max_message_size r < unat (frag_payload_size f)")
    case True
    with r1 show ?thesis by (simp add: process_eq [OF assms])
  next
    case False
    with r1 have fs: "set_ok ?fs" "unat (fs_payload_size ?fs) \<le> max_message_size r"
      using touched_ok [of ?r1 f sender now'] by auto
    with r1 False show ?thesis
      by (auto simp: process_eq [OF assms] merged_def
          intro!: reassembler_ok_put_set dest: set_ok_merged [of ?fs f, unfolded merged_def])
  qed
qed

section \<open>Sequences of arrivals\<close>

text \<open>A fragment, its sender, and the two clock readings of its call of \<open>process\<close>.\<close>

type_synonym arrival = "Fragment \<times> SocketAddr \<times> Instant \<times> Instant"

definition process_arrival ::
  "FragmentReassembler \<Rightarrow> arrival \<Rightarrow> (FragmentReassembler \<times> LcmMessage option) may_panic" where
  "process_arrival r = (\<lambda>(f, sender, now, now'). process r f sender now now')"

text \<open>The reassembler keeps its invariant and its configuration, and what it delivers is within
  the configured size.\<close>

definition reassembler_inv :: "Duration \<Rightarrow> usize \<Rightarrow> FragmentReassembler \<Rightarrow> bool" where
  "reassembler_inv t m r \<longleftrightarrow> reassembler_ok r \<and> timeout r = t \<and> max_message_size r = m"

definition within_size :: "usize \<Rightarrow> LcmMessage option \<Rightarrow> bool" where
  "within_size m out = (case out of None \<Rightarrow> True | Some msg \<Rightarrow> length (msg_data msg) \<le> m)"

lemma process_delivers:
  assumes "reassembler_ok r" and "process r f sender now now' = Ret (r', Some msg)"
  shows "length (msg_data msg) = unat (frag_payload_size f)"
    and "unat (frag_payload_size f) \<le> max_message_size r"
    and "msg_sequence_number msg = frag_sequence_number f"
    and "pending r' (key_of f sender) = None"
proof -
  define fs where "fs = touched (expire_stale r now) f sender now'"
  from assms(2) have size: "unat (frag_payload_size f) \<le> max_message_size r"
    and acc: "accepts f fs" and msg: "msg = message_of f (merged f fs)"
    and r': "pending r' (key_of f sender) = None"
    by (auto simp: process_eq [OF assms(1)] fs_def split: if_splits)
  then show "unat (frag_payload_size f) \<le> max_message_size r"
    and "msg_sequence_number msg = frag_sequence_number f"
    and "pending r' (key_of f sender) = None"
    by (simp_all add: message_of_def)
  have "set_ok fs"
    using touched_ok(1) [OF reassembler_ok_expire_stale [OF assms(1)]] size by (simp add: fs_def)
  with acc msg show "length (msg_data msg) = unat (frag_payload_size f)"
    by (auto simp: message_of_def merged_def set_ok_def accepts_def)
qed

lemma reassembler_ok_new: "reassembler_inv t m (FragmentReassembler_new t m)"
  by (simp add: reassembler_inv_def reassembler_ok_def FragmentReassembler_new_def)

interpretation reasm: reliable_step process_arrival "reassembler_inv t m" "within_size m" for t m
proof
  fix r :: FragmentReassembler and a :: arrival
  assume inv: "reassembler_inv t m r"
  obtain f sender now now' where a: "a = (f, sender, now, now')" by (cases a)
  from inv have ok: "reassembler_ok r" by (simp add: reassembler_inv_def)
  obtain r' out where step: "process r f sender now now' = Ret (r', out)" "reassembler_ok r'"
    "timeout r' = timeout r" "max_message_size r' = max_message_size r"
    using process_ok [OF ok] by blast
  moreover have "within_size m out"
    using process_delivers [OF ok, of f sender now now' r'] step(1) inv
    by (auto simp: within_size_def reassembler_inv_def split: option.split)
  ultimately show "\<exists>r' out. process_arrival r a = Ret (r', out) \<and> reassembler_inv t m r' \<and> within_size m out"
    using inv by (auto simp: process_arrival_def a reassembler_inv_def)
qed

lemmas process_defs =
  expire_stale_def touched_def store_channel_def new_set_def accepts_def merged_def message_of_def
  put_set_def key_of_def

section \<open>Properties\<close>

text \<open>Claim C18. \<open>process\<close> never panics and keeps the reassembler's invariant: on any fragment, from
  any sender and at any time, its index, slice and counter operations are in range, buffers and
  masks keep their announced sizes, the counter counts the mask, and every pending buffer is within
  the configured maximum. The configuration is unchanged.\<close>

theorem process_keeps_invariant:
  assumes "reassembler_ok r"
  shows "\<exists>r' out. process r f sender now now' = Ret (r', out) \<and> reassembler_ok r' \<and>
    timeout r' = timeout r \<and> max_message_size r' = max_message_size r"
  using assms by (rule process_ok)

definition example_fragment :: Fragment where
  "example_fragment = \<lparr>frag_sequence_number = 1, frag_payload_size = 6, frag_fragment_offset = 0,
     frag_fragment_number = 0, frag_n_fragments = 2, frag_channel = Some ''CH'', frag_data = [1, 2, 3]\<rparr>"

definition example_sender :: SocketAddr where
  "example_sender = SocketAddrV4 (Ipv4Addr 192 168 1 10) 5000"

lemma example_ok: "reassembler_ok (FragmentReassembler_new 10 100)"
  using reassembler_ok_new [of 10 100] by (simp add: reassembler_inv_def)

theorem process_keeps_invariant_witness:
  "\<exists>r' out. process (FragmentReassembler_new 10 100) example_fragment example_sender 5 5 = Ret (r', out)
    \<and> reassembler_ok r' \<and> timeout r' = timeout (FragmentReassembler_new 10 100)
    \<and> max_message_size r' = max_message_size (FragmentReassembler_new 10 100)"
  by (rule process_keeps_invariant) (rule example_ok)

text \<open>Claim C9. The functional behaviour of \<open>process\<close> on every branch. After stale sets are expired:
  an oversized fragment changes nothing; a fragment that is inconsistent, out of range, a duplicate
  or overflowing leaves its set with only the channel name stored; an accepted one is copied in; and
  the one that completes the count removes the set and returns the message.\<close>

theorem process_outcomes:
  assumes "reassembler_ok r"
  shows "process r f sender now now' =
    (let r1 = expire_stale r now; fs = touched r1 f sender now'; key = key_of f sender in
     if max_message_size r < unat (frag_payload_size f) then Ret (r1, None)
     else if \<not> accepts f fs then Ret (put_set r1 key (Some fs), None)
     else if fragments_received fs + 1 = fs_n_fragments fs
     then Ret (put_set r1 key None, Some (message_of f (merged f fs)))
     else Ret (put_set r1 key (Some (merged f fs)), None))"
  unfolding Let_def using assms by (rule process_eq)

theorem process_outcomes_witness:
  "\<exists>r'. process (FragmentReassembler_new 10 5) example_fragment example_sender 5 5 = Ret (r', None)
    \<and> pending r' (example_sender, 1) = None"
proof -
  have "reassembler_ok (FragmentReassembler_new 10 5)"
    using reassembler_ok_new [of 10 5] by (simp add: reassembler_inv_def)
  from process_outcomes [OF this, of example_fragment example_sender 5 5] show ?thesis
    by (simp add: Let_def example_fragment_def FragmentReassembler_new_def expire_stale_def)
qed

text \<open>What \<open>process\<close> delivers has exactly the announced payload size, which is within the
  configured maximum, carries the fragment's sequence number, and its set is gone afterwards.\<close>

lemma delivered_message_bounds:
  assumes "reassembler_ok r" and "process r f sender now now' = Ret (r', Some msg)"
  shows "length (msg_data msg) = unat (frag_payload_size f) \<and>
    length (msg_data msg) \<le> max_message_size r \<and>
    msg_sequence_number msg = frag_sequence_number f \<and> pending r' (key_of f sender) = None"
  using process_delivers [OF assms] by simp

lemma example_single:
  "process (FragmentReassembler_new 10 100) (example_fragment\<lparr>frag_payload_size := 3, frag_n_fragments := 1\<rparr>)
      example_sender 5 5 =
    Ret (FragmentReassembler_new 10 100,
      Some \<lparr>msg_channel = ''CH'', msg_sequence_number = 1, msg_data = [1, 2, 3]\<rparr>)"
  unfolding process_eq [OF example_ok]
  by (simp add: example_fragment_def FragmentReassembler_new_def
      process_defs)

lemma delivered_message_bounds_example:
  "\<exists>r' msg. process (FragmentReassembler_new 10 100)
      (example_fragment\<lparr>frag_payload_size := 3, frag_n_fragments := 1\<rparr>) example_sender 5 5 = Ret (r', Some msg) \<and>
    length (msg_data msg) = 3 \<and> length (msg_data msg) \<le> 100 \<and> pending r' (example_sender, 1) = None"
  using example_single delivered_message_bounds [OF example_ok example_single]
  by (intro exI conjI) (assumption, simp_all add: FragmentReassembler_new_def)

text \<open>Claim C19. Expiry and isolation: \<open>process\<close> drops every set of another key that is older than the
  timeout and leaves every younger one exactly as it was, and creates none; a set it leaves under the key
  of the fragment is the one that was there if that is not too old, with its time of creation, and
  otherwise a new one of this call.\<close>

theorem process_expires_and_isolates:
  assumes "reassembler_ok r" and "process r f sender now now' = Ret (r', out)"
  shows "(\<forall>key. key \<noteq> (sender, frag_sequence_number f) \<longrightarrow>
      pending r' key = (case pending r key of None \<Rightarrow> None
        | Some fs \<Rightarrow> if created_at fs + timeout r < now then None else Some fs)) \<and>
    (\<forall>fs'. pending r' (sender, frag_sequence_number f) = Some fs' \<longrightarrow>
      created_at fs' = (case pending r (sender, frag_sequence_number f) of None \<Rightarrow> now'
        | Some fs \<Rightarrow> if created_at fs + timeout r < now then now' else created_at fs)) \<and>
    timeout r' = timeout r \<and> max_message_size r' = max_message_size r"
proof -
  let ?r1 = "expire_stale r now" and ?key = "(sender, frag_sequence_number f)"
  have expired: "pending ?r1 key = (case pending r key of None \<Rightarrow> None
      | Some fs \<Rightarrow> if created_at fs + timeout r < now then None else Some fs)" for key
    by (auto simp: expire_stale_def duration_since_def split: option.splits)
  have "created_at (touched ?r1 f sender now') = (case pending r ?key of None \<Rightarrow> now'
      | Some fs \<Rightarrow> if created_at fs + timeout r < now then now' else created_at fs)"
    by (simp add: touched_def set_update new_set_def expired key_of_def split: option.split)
  moreover have "created_at (merged f fs) = created_at fs" for fs by (simp add: merged_def)
  ultimately have "created_at fs' = (case pending r ?key of None \<Rightarrow> now'
      | Some fs \<Rightarrow> if created_at fs + timeout r < now then now' else created_at fs)"
    if "pending r' ?key = Some fs'" for fs'
    using assms(2) that expired [of ?key]
    by (auto simp: process_eq [OF assms(1)] key_of_def split: if_splits option.splits)
  moreover have "pending r' key = (case pending r key of None \<Rightarrow> None
      | Some fs \<Rightarrow> if created_at fs + timeout r < now then None else Some fs)" if "key \<noteq> ?key" for key
  proof -
    have "pending r' key = pending ?r1 key"
      using assms(2) that by (auto simp: process_eq [OF assms(1)] key_of_def split: if_splits)
    then show ?thesis by (simp only: expired)
  qed
  moreover have "timeout r' = timeout r" "max_message_size r' = max_message_size r"
    using assms(2) by (auto simp: process_eq [OF assms(1)] split: if_splits)
  ultimately show ?thesis by blast
qed

text \<open>A reassembler with a set of time 0 and one of time 3.\<close>

definition example_two_sets :: FragmentReassembler where
  "example_two_sets = \<lparr>pending = [(example_sender, 8) \<mapsto> new_set example_fragment 0,
     (example_sender, 9) \<mapsto> new_set example_fragment 3], timeout = 4, max_message_size = 100\<rparr>"

lemma example_two_sets_ok: "reassembler_ok example_two_sets"
proof (rule reassembler_okI)
  fix key fs
  assume "pending example_two_sets key = Some fs"
  then have fs: "fs = new_set example_fragment 0 \<or> fs = new_set example_fragment 3"
    by (auto simp: example_two_sets_def split: if_splits)
  then show "set_ok fs" by (auto simp: set_update)
  from fs show "unat (fs_payload_size fs) \<le> max_message_size example_two_sets"
    by (auto simp: new_set_def example_fragment_def example_two_sets_def)
qed (simp add: example_two_sets_def)

theorem process_expires_and_isolates_witness:
  "\<exists>r' out. process example_two_sets example_fragment example_sender 5 6 = Ret (r', out) \<and>
    pending r' (example_sender, 8) = None \<and>
    pending r' (example_sender, 9) = Some (new_set example_fragment 3) \<and>
    pending r' (example_sender, 7) = None \<and>
    (\<exists>fs. pending r' (example_sender, 1) = Some fs \<and> created_at fs = 6)"
proof -
  obtain r' out where r': "process example_two_sets example_fragment example_sender 5 6 = Ret (r', out)"
    using process_ok [OF example_two_sets_ok] by blast
  have none: "pending (expire_stale example_two_sets 5) (example_sender, 1) = None"
    by (simp add: expire_stale_def example_two_sets_def)
  have "key_of example_fragment example_sender = (example_sender, 1)"
    by (simp add: key_of_def example_fragment_def)
  note key = this
  then have touched: "touched (expire_stale example_two_sets 5) example_fragment example_sender 6 =
      store_channel example_fragment (new_set example_fragment 6)"
    by (simp add: touched_def none)
  have "accepts example_fragment (store_channel example_fragment (new_set example_fragment 6))"
    "fragments_received (store_channel example_fragment (new_set example_fragment 6)) + 1 \<noteq>
      fs_n_fragments (store_channel example_fragment (new_set example_fragment 6))"
    by (simp_all add: accepts_def set_update new_set_def example_fragment_def)
  moreover have "\<not> max_message_size example_two_sets < unat (frag_payload_size example_fragment)"
    by (simp add: example_two_sets_def example_fragment_def)
  ultimately have "pending r' (example_sender, 1) \<noteq> None"
    using r' [unfolded process_eq [OF example_two_sets_ok] touched key] by (auto simp: put_set_def)
  with process_expires_and_isolates [OF example_two_sets_ok r'] r' show ?thesis
    by (auto simp: example_two_sets_def example_fragment_def new_set_def)
qed

text \<open>Claim C35. A fragment that \<open>process\<close> rejects as inconsistent still renames the message under
  reassembly: fragment number 0 with another payload size is dropped, but its channel name replaces
  that of the pending set, under which the message is delivered later.\<close>

theorem rejected_fragment_renames_channel:
  assumes "reassembler_ok r" and "pending (expire_stale r now) (key_of f sender) = Some fs"
    and "unat (frag_payload_size f) \<le> max_message_size r"
    and "frag_payload_size f \<noteq> fs_payload_size fs"
    and "frag_fragment_number f = 0" and "frag_channel f = Some c"
  shows "\<exists>r'. process r f sender now now' = Ret (r', None) \<and>
    pending r' (key_of f sender) = Some (fs\<lparr>fs_channel := c\<rparr>)"
  using assms by (simp add: process_eq [OF assms(1)] touched_def store_channel_def accepts_def)

lemma example_two_steps:
  "\<exists>r. process (FragmentReassembler_new 10 100) example_fragment example_sender 5 5 = Ret (r, None) \<and>
    reassembler_ok r \<and> max_message_size r = 100 \<and>
    (\<exists>fs. pending (expire_stale r 6) (example_sender, 1) = Some fs \<and> fs_payload_size fs = 6 \<and> fs_channel fs = ''CH'')"
proof -
  have "process (FragmentReassembler_new 10 100) example_fragment example_sender 5 5 =
    Ret (put_set (FragmentReassembler_new 10 100) (example_sender, 1)
      (Some (merged example_fragment (store_channel example_fragment (new_set example_fragment 5)))), None)"
    unfolding process_eq [OF example_ok]
    by (simp add: example_fragment_def FragmentReassembler_new_def
        process_defs)
  moreover obtain r' out where
    "process (FragmentReassembler_new 10 100) example_fragment example_sender 5 5 = Ret (r', out)"
    "reassembler_ok r'" "max_message_size r' = max_message_size (FragmentReassembler_new 10 100)"
    using process_ok [OF example_ok] by blast
  ultimately show ?thesis
    by (auto simp: expire_stale_def FragmentReassembler_new_def merged_def store_channel_def
        new_set_def example_fragment_def duration_since_def)
qed

theorem rejected_fragment_renames_channel_witness:
  "\<exists>r r' fs. process (FragmentReassembler_new 10 100) example_fragment example_sender 5 5 = Ret (r, None) \<and>
    process r (example_fragment\<lparr>frag_payload_size := 7, frag_channel := Some ''EVIL''\<rparr>) example_sender 6 6
      = Ret (r', None) \<and>
    pending r' (example_sender, 1) = Some fs \<and> fs_channel fs = ''EVIL''"
proof -
  let ?f = "example_fragment\<lparr>frag_payload_size := 7, frag_channel := Some ''EVIL''\<rparr>"
  have key: "key_of ?f example_sender = (example_sender, 1)"
    by (simp add: key_of_def example_fragment_def)
  obtain r fs where r: "process (FragmentReassembler_new 10 100) example_fragment example_sender 5 5 = Ret (r, None)"
    "reassembler_ok r" "max_message_size r = 100"
    "pending (expire_stale r 6) (example_sender, 1) = Some fs" "fs_payload_size fs = 6"
    using example_two_steps by blast
  have "\<exists>r'. process r ?f example_sender 6 6 = Ret (r', None) \<and>
      pending r' (key_of ?f example_sender) = Some (fs\<lparr>fs_channel := ''EVIL''\<rparr>)"
    using r by (intro rejected_fragment_renames_channel) (simp_all only: key, simp_all add: example_fragment_def)
  with r(1) key show ?thesis by fastforce
qed

end
