(* ===== verification/Multicast.thy ===== *)
theory Multicast
  imports Reassembly
begin

text \<open>
  The UDP multicast transport, \<open>lcm-transport/src/multicast.rs\<close>: its configuration and the
  socket options of \<open>new\<close>, \<open>send\<close> with its fragmentation loop, and the receive loop \<open>recv\<close>.

  The operating system is a parameter. \<open>sock\<close> says whether a socket option call fails, given
  the calls before it; \<open>os\<close> says whether the k-th call of \<open>send_to\<close> fails on a datagram.
  The datagrams that leave are recorded in order in \<open>wire\<close>; what arrives is a list of events.
\<close>

section \<open>Configuration\<close>

definition MAX_DATAGRAM_SIZE :: usize where "MAX_DATAGRAM_SIZE = 65536"
definition DEFAULT_FRAGMENT_MTU :: usize where "DEFAULT_FRAGMENT_MTU = 1400"
definition DEFAULT_FRAGMENT_TIMEOUT :: Duration where "DEFAULT_FRAGMENT_TIMEOUT = from_secs 1"
definition DEFAULT_MAX_MESSAGE_SIZE :: usize where "DEFAULT_MAX_MESSAGE_SIZE = 4 * 1024 * 1024"

record LcmTransportConfig =
  tc_lcm_url :: LcmUrl
  tc_network_interface :: "Ipv4Addr option"
  tc_fragment_mtu :: usize
  tc_fragment_timeout :: Duration
  tc_max_message_size :: usize

definition LcmTransportConfig_default :: LcmTransportConfig where
  "LcmTransportConfig_default =
     \<lparr>tc_lcm_url = LcmUrl_default, tc_network_interface = None,
      tc_fragment_mtu = DEFAULT_FRAGMENT_MTU, tc_fragment_timeout = DEFAULT_FRAGMENT_TIMEOUT,
      tc_max_message_size = DEFAULT_MAX_MESSAGE_SIZE\<rparr>"

text \<open>An \<open>io::Error\<close>: made by the code with kind \<open>InvalidInput\<close>, or one of the system's.\<close>

datatype 'e io_error =
    InvalidUrl UrlError
  | MtuTooSmall
  | OsError 'e

section \<open>Creating the transport\<close>

datatype SocketCall =
    SocketNew
  | SetReuseAddress bool
  | SetReusePort bool
  | SetNonblocking bool
  | Bind Ipv4Addr u16
  | SetRecvBufferSize usize
  | SetMulticastTtlV4 u32
  | SetMulticastLoopV4 bool
  | JoinMulticastV4 Ipv4Addr Ipv4Addr
  | FromStd

record LcmTransport =
  multicast_addr :: SocketAddr
  fragment_mtu :: usize
  sequence_counter :: u32

definition UNSPECIFIED :: Ipv4Addr where "UNSPECIFIED = Ipv4Addr 0 0 0 0"

text \<open>The calls of \<open>new\<close> in order; the receive buffer is set only when the URL asks for it.\<close>

definition socket_calls :: "LcmTransportConfig \<Rightarrow> SocketCall list" where
  "socket_calls config =
     (let interface = (case tc_network_interface config of Some i \<Rightarrow> i | None \<Rightarrow> UNSPECIFIED)
      in [SocketNew, SetReuseAddress True, SetReusePort True, SetNonblocking True,
          Bind UNSPECIFIED (port (tc_lcm_url config))]
         @ (case recv_buf_size (tc_lcm_url config) of
              None \<Rightarrow> [] | Some n \<Rightarrow> [SetRecvBufferSize n])
         @ [SetMulticastTtlV4 (ttl (tc_lcm_url config)), SetMulticastLoopV4 True,
            JoinMulticastV4 (multicast_group (tc_lcm_url config)) interface, FromStd])"

text \<open>Each call is followed by \<open>?\<close>: the first failure is returned and no later call is made.\<close>

fun run_calls ::
  "(SocketCall list \<Rightarrow> SocketCall \<Rightarrow> 'e option) \<Rightarrow> SocketCall list \<Rightarrow> SocketCall list
     \<Rightarrow> SocketCall list \<times> 'e option" where
  "run_calls sock trace [] = (trace, None)"
| "run_calls sock trace (c # cs) =
     (case sock trace c of
        Some e \<Rightarrow> (trace @ [c], Some e)
      | None \<Rightarrow> run_calls sock (trace @ [c]) cs)"

definition LcmTransport_new ::
  "(SocketCall list \<Rightarrow> SocketCall \<Rightarrow> 'e option) \<Rightarrow> LcmTransportConfig
     \<Rightarrow> SocketCall list \<times> ('e io_error + LcmTransport)" where
  "LcmTransport_new sock config =
     (case run_calls sock [] (socket_calls config) of
        (trace, Some e) \<Rightarrow> (trace, Inl (OsError e))
      | (trace, None) \<Rightarrow>
          (trace, Inr \<lparr>multicast_addr = SocketAddrV4 (multicast_group (tc_lcm_url config))
                                                   (port (tc_lcm_url config)),
                       fragment_mtu = tc_fragment_mtu config, sequence_counter = 0\<rparr>))"

definition LcmTransport_from_url ::
  "(SocketCall list \<Rightarrow> SocketCall \<Rightarrow> 'e option) \<Rightarrow> string
     \<Rightarrow> SocketCall list \<times> ('e io_error + LcmTransport)" where
  "LcmTransport_from_url sock url =
     (case LcmUrl_parse url of
        Inl e \<Rightarrow> ([], Inl (InvalidUrl e))
      | Inr lcm_url \<Rightarrow>
          LcmTransport_new sock (LcmTransportConfig_default\<lparr>tc_lcm_url := lcm_url\<rparr>))"

section \<open>Sending\<close>

text \<open>What the transport's socket has done: the number of \<open>send_to\<close> calls, and the datagrams
  that left.\<close>

record Net =
  attempts :: nat
  wire :: "(SocketAddr \<times> bytes) list"

definition send_to ::
  "(nat \<Rightarrow> bytes \<Rightarrow> 'e option) \<Rightarrow> Net \<Rightarrow> bytes \<Rightarrow> SocketAddr \<Rightarrow> Net \<times> ('e io_error + unit)" where
  "send_to os net buf addr =
     (case os (attempts net) buf of
        Some e \<Rightarrow> (net\<lparr>attempts := attempts net + 1\<rparr>, Inl (OsError e))
      | None \<Rightarrow> (net\<lparr>attempts := attempts net + 1, wire := wire net @ [(addr, buf)]\<rparr>, Inr ()))"

text \<open>The loop \<open>for frag_num in 0..n_fragments\<close>, from \<open>frag_num\<close> on.\<close>

function send_loop ::
  "(nat \<Rightarrow> bytes \<Rightarrow> 'e option) \<Rightarrow> SocketAddr \<Rightarrow> u32 \<Rightarrow> u32 \<Rightarrow> usize \<Rightarrow> usize \<Rightarrow> string \<Rightarrow> bytes
     \<Rightarrow> u16 \<Rightarrow> nat \<Rightarrow> bytes \<Rightarrow> usize \<Rightarrow> Net \<Rightarrow> (Net \<times> ('e io_error + unit)) may_panic" where
  "send_loop os addr sequence_number payload_size first_frag_capacity subsequent_frag_capacity
       channel data n_fragments frag_num buf offset net =
     (if frag_num < unat n_fragments then do {
        (chunk_data, chan) \<leftarrow>
          (if frag_num = 0 then do {
             let end_pos = min first_frag_capacity (length data);
             chunk \<leftarrow> slice_to data end_pos;
             Ret (chunk, Some channel) }
           else do {
             let end_pos = min (offset + subsequent_frag_capacity) (length data);
             chunk \<leftarrow> slice data offset end_pos;
             Ret (chunk, None) });
        let buf = encode_fragment buf sequence_number payload_size (word_of_nat offset)
                    (word_of_nat frag_num) n_fragments chan chunk_data;
        (case send_to os net buf addr of
           (net, Inl e) \<Rightarrow> Ret (net, Inl e)
         | (net, Inr _) \<Rightarrow>
             send_loop os addr sequence_number payload_size first_frag_capacity
               subsequent_frag_capacity channel data n_fragments (frag_num + 1) buf
               (offset + length chunk_data) net) }
      else Ret (net, Inr ()))"
  by pat_completeness auto
termination
  by (relation "measure (\<lambda>(_, _, _, _, _, _, _, _, n_fragments, frag_num, _). unat n_fragments - frag_num)")
    auto

declare send_loop.simps [simp del]

definition send_fragmented ::
  "(nat \<Rightarrow> bytes \<Rightarrow> 'e option) \<Rightarrow> LcmTransport \<Rightarrow> Net \<Rightarrow> u32 \<Rightarrow> string \<Rightarrow> bytes
     \<Rightarrow> (Net \<times> ('e io_error + unit)) may_panic" where
  "send_fragmented os t net sequence_number channel data =
     (let payload_size = word_of_nat (length data);
          first_frag_overhead = FRAGMENT_HEADER_SIZE + length channel + 1;
          first_frag_capacity = usize_saturating_sub (fragment_mtu t) first_frag_overhead;
          subsequent_frag_capacity = usize_saturating_sub (fragment_mtu t) FRAGMENT_HEADER_SIZE
      in if first_frag_capacity = 0 \<or> subsequent_frag_capacity = 0 then Ret (net, Inl MtuTooSmall)
      else
        let remaining_after_first = usize_saturating_sub (length data) first_frag_capacity;
            n_fragments =
              1 + (case usize_checked_add remaining_after_first (subsequent_frag_capacity - 1) of
                     Some v \<Rightarrow> v div subsequent_frag_capacity
                   | None \<Rightarrow> 0);
            n_fragments = word_of_nat n_fragments
        in send_loop os (multicast_addr t) sequence_number payload_size first_frag_capacity
             subsequent_frag_capacity channel data n_fragments 0 [] 0 net)"

definition send ::
  "(nat \<Rightarrow> bytes \<Rightarrow> 'e option) \<Rightarrow> LcmTransport \<Rightarrow> Net \<Rightarrow> string \<Rightarrow> bytes
     \<Rightarrow> (LcmTransport \<times> Net \<times> ('e io_error + u32)) may_panic" where
  "send os t net channel data =
     (let seq = sequence_counter t;
          t = t\<lparr>sequence_counter := seq + 1\<rparr>;
          short_size = 4 + 4 + length channel + 1 + length data
      in do {
        (net, result) \<leftarrow>
          (if short_size \<le> fragment_mtu t then
             Ret (send_to os net (encode_short_message [] seq channel data) (multicast_addr t))
           else send_fragmented os t net seq channel data);
        (case result of
           Inl e \<Rightarrow> Ret (t, net, Inl e)
         | Inr _ \<Rightarrow> Ret (t, net, Inr seq)) })"

section \<open>Receiving\<close>

text \<open>
  An event of \<open>recv_from\<close>: a datagram with its source and the clock readings \<open>process\<close> takes
  if it is called on it, or an error. A datagram longer than the buffer is cut to its size.
\<close>

datatype 'e incoming = Datagram bytes SocketAddr Instant Instant | RecvError 'e

datatype 'e recv_result = Received LcmMessage | RecvFailed "'e io_error" | Waiting

text \<open>\<open>recv\<close> consumes events until it returns; with no event left it is still waiting.\<close>

fun recv ::
  "FragmentReassembler \<Rightarrow> 'e incoming list
     \<Rightarrow> (FragmentReassembler \<times> 'e incoming list \<times> 'e recv_result) may_panic" where
  "recv r [] = Ret (r, [], Waiting)"
| "recv r (RecvError e # events) = Ret (r, events, RecvFailed (OsError e))"
| "recv r (Datagram pkt src now now' # events) = do {
     packet \<leftarrow> parse_datagram (take MAX_DATAGRAM_SIZE pkt);
     (case packet of
        Some (Short msg) \<Rightarrow>
          Ret (r, events, Received \<lparr>msg_channel = sm_channel msg,
                                    msg_sequence_number = sm_sequence_number msg,
                                    msg_data = sm_data msg\<rparr>)
      | Some (Frag frag) \<Rightarrow> do {
          (r, out) \<leftarrow> process r frag src now now';
          (case out of
             Some msg \<Rightarrow> Ret (r, events, Received msg)
           | None \<Rightarrow> recv r events) }
      | None \<Rightarrow> recv r events) }"

text \<open>Socket calls that all succeed are all made.\<close>

lemma run_calls_prefix:
  "\<exists>n. fst (run_calls sock trace calls) = trace @ take n calls \<and>
     (snd (run_calls sock trace calls) = None \<longrightarrow> length calls \<le> n)"
proof (induction calls arbitrary: trace)
  case (Cons c calls)
  show ?case
  proof (cases "sock trace c")
    case None
    obtain n where "fst (run_calls sock (trace @ [c]) calls) = (trace @ [c]) @ take n calls"
      "snd (run_calls sock (trace @ [c]) calls) = None \<longrightarrow> length calls \<le> n"
      using Cons.IH by blast
    with None show ?thesis by (intro exI [where x = "Suc n"]) simp
  next
    case (Some e)
    then show ?thesis by (intro exI [where x = 1]) simp
  qed
qed simp

lemma run_calls_succeed:
  "\<forall>i < length calls. sock (trace @ take i calls) (calls ! i) = None \<Longrightarrow>
     run_calls sock trace calls = (trace @ calls, None)"
proof (induction calls arbitrary: trace)
  case (Cons c calls)
  have "\<forall>i < length calls. sock ((trace @ [c]) @ take i calls) (calls ! i) = None"
    using Cons.prems by fastforce
  from Cons.IH [OF this] spec [OF Cons.prems, of 0] show ?case by simp
qed simp

lemma run_calls_fail:
  "i < length calls \<Longrightarrow> \<forall>j < i. sock (trace @ take j calls) (calls ! j) = None \<Longrightarrow>
     sock (trace @ take i calls) (calls ! i) = Some e \<Longrightarrow>
     run_calls sock trace calls = (trace @ take (Suc i) calls, Some e)"
proof (induction calls arbitrary: i trace)
  case (Cons c calls)
  show ?case
  proof (cases i)
    case 0
    with Cons.prems show ?thesis by simp
  next
    case (Suc k)
    have "\<forall>j < k. sock ((trace @ [c]) @ take j calls) (calls ! j) = None"
    proof (intro allI impI)
      fix j
      assume "j < k"
      with Cons.prems(2) Suc have "sock (trace @ take (Suc j) (c # calls)) ((c # calls) ! Suc j) = None" by blast
      then show "sock ((trace @ [c]) @ take j calls) (calls ! j) = None" by simp
    qed
    moreover have "k < length calls" "sock ((trace @ [c]) @ take k calls) (calls ! k) = Some e"
      using Cons.prems(1,3) Suc by simp_all
    ultimately have "run_calls sock (trace @ [c]) calls = ((trace @ [c]) @ take (Suc k) calls, Some e)"
      using Cons.IH by blast
    moreover have "sock trace c = None" using Cons.prems(2) Suc by (metis append_Nil2 nth_Cons_0 take0 zero_less_Suc)
    ultimately show ?thesis using Suc by simp
  qed
qed simp

lemma run_calls_all:
  assumes "\<And>cs c. sock cs c = None"
  shows "run_calls sock trace calls = (trace @ calls, None)"
  by (induction calls arbitrary: trace) (simp_all add: assms)

end
