(* ===== verification/Reassembly_Refinement.thy ===== *)
theory Reassembly_Refinement
  imports Reassembly
begin

text \<open>
  Fragment reassembly refines a machine that only remembers which fragment numbers it has seen.
  For one message, cut into fragments in any way that covers its payload, the reassembler answers
  every arrival as that machine does: whatever the order, the duplicates, and the fragments of
  other senders or sequence numbers in between, as long as the arrivals fall in one timeout window.
\<close>

section \<open>The fragments of one message\<close>

definition frag_at :: "u32 \<Rightarrow> string \<Rightarrow> bytes \<Rightarrow> nat \<Rightarrow> nat \<Rightarrow> Fragment \<Rightarrow> bool" where
  "frag_at n c d k i f \<longleftrightarrow>
     frag_sequence_number f = n \<and> unat (frag_payload_size f) = length d \<and>
     unat (frag_n_fragments f) = k \<and> unat (frag_fragment_number f) = i \<and>
     frag_channel f = (if i = 0 then Some c else None) \<and>
     unat (frag_fragment_offset f) + length (frag_data f) \<le> length d \<and>
     frag_data f = take (length (frag_data f)) (drop (unat (frag_fragment_offset f)) d)"

definition span :: "Fragment \<Rightarrow> nat set" where
  "span f = {unat (frag_fragment_offset f)..<unat (frag_fragment_offset f) + length (frag_data f)}"

definition fragmentation :: "u32 \<Rightarrow> string \<Rightarrow> bytes \<Rightarrow> Fragment list \<Rightarrow> bool" where
  "fragmentation n c d fs \<longleftrightarrow> fs \<noteq> [] \<and>
     (\<forall>i < length fs. frag_at n c d (length fs) i (fs ! i)) \<and>
     (\<forall>p < length d. \<exists>f \<in> set fs. p \<in> span f)"

lemma frag_at_data:
  assumes "frag_at n c d k i f" and "p \<in> span f"
  shows "frag_data f ! (p - unat (frag_fragment_offset f)) = d ! p"
proof -
  let ?o = "unat (frag_fragment_offset f)"
  from assms(2) have p: "?o \<le> p" "p - ?o < length (frag_data f)" by (auto simp: span_def)
  have "frag_data f ! (p - ?o) = take (length (frag_data f)) (drop ?o d) ! (p - ?o)"
    using assms(1) by (metis frag_at_def)
  moreover have "?o + length (frag_data f) \<le> length d" using assms(1) by (simp only: frag_at_def)
  ultimately show ?thesis using p by simp
qed

section \<open>The abstract machine\<close>

definition seen_step :: "nat \<Rightarrow> nat set \<Rightarrow> nat \<Rightarrow> nat set \<times> bool" where
  "seen_step k R i =
     (if i \<in> R then (R, False)
      else if insert i R = {..<k} then ({}, True)
      else (insert i R, False))"

text \<open>The concrete set that stands for the seen numbers \<open>R\<close>.\<close>

definition holds :: "string \<Rightarrow> bytes \<Rightarrow> Fragment list \<Rightarrow> nat set \<Rightarrow> FragmentSet \<Rightarrow> bool" where
  "holds c d fs R s \<longleftrightarrow>
     unat (fs_payload_size s) = length d \<and> unat (fs_n_fragments s) = length fs \<and>
     length (fs_buffer s) = length d \<and> length (received_mask s) = length fs \<and>
     (\<forall>i < length fs. received_mask s ! i \<longleftrightarrow> i \<in> R) \<and>
     (0 \<in> R \<longrightarrow> fs_channel s = c) \<and>
     (\<forall>i \<in> R. i < length fs \<and> (\<forall>p \<in> span (fs ! i). p < length d \<longrightarrow> fs_buffer s ! p = d ! p))"

lemma holds_new:
  "frag_at n c d (length fs) i f \<Longrightarrow> holds c d fs {} (new_set f now)"
  by (auto simp: holds_def new_set_def frag_at_def)

lemma holds_store_channel:
  assumes "holds c d fs R s" and "frag_at n c d (length fs) i f"
  shows "holds c d fs R (store_channel f s)"
    and "i = 0 \<Longrightarrow> fs_channel (store_channel f s) = c"
proof -
  have "fs_channel (store_channel f s) = (if i = 0 then c else fs_channel s)"
    using assms(2) by (auto simp: store_channel_def frag_at_def unat_eq_0 split: option.splits)
  then show "i = 0 \<Longrightarrow> fs_channel (store_channel f s) = c"
    and "holds c d fs R (store_channel f s)"
    using assms(1) by (simp_all add: holds_def set_update)
qed

lemma holds_accepts:
  assumes "holds c d fs R s" and "frag_at n c d (length fs) i f" and "i < length fs"
  shows "accepts f s \<longleftrightarrow> i \<notin> R"
  using assms by (auto simp: accepts_def holds_def frag_at_def word_unat_eq_iff)

lemma merged_buffer_nth:
  assumes "unat (frag_fragment_offset f) + length (frag_data f) \<le> length (fs_buffer s)"
    and "p < length (fs_buffer s)"
  shows "fs_buffer (merged f s) ! p =
    (if p \<in> span f then frag_data f ! (p - unat (frag_fragment_offset f)) else fs_buffer s ! p)"
  using assms by (auto simp: merged_def span_def nth_append)

lemma holds_merged:
  assumes s: "holds c d fs R s" and f: "frag_at n c d (length fs) i f"
    and i: "i < length fs" "i \<notin> R" "f = fs ! i" and c: "i = 0 \<Longrightarrow> fs_channel s = c"
  shows "holds c d fs (insert i R) (merged f s)"
proof -
  have buf: "fs_buffer (merged f s) ! p = d ! p"
    if "p \<in> span (fs ! j)" "j \<in> insert i R" "p < length d" for p j
  proof (cases "p \<in> span f")
    case True
    with s f that show ?thesis
      by (simp add: merged_buffer_nth holds_def frag_at_def frag_at_data [OF f True])
  next
    case False
    with that i(3) have "j \<in> R" by auto
    with False s f that show ?thesis
      by (simp add: merged_buffer_nth holds_def frag_at_def)
  qed
  have fields: "fs_payload_size (merged f s) = fs_payload_size s"
    "fs_n_fragments (merged f s) = fs_n_fragments s" "fs_channel (merged f s) = fs_channel s"
    "received_mask (merged f s) = (received_mask s)[i := True]"
    "length (fs_buffer (merged f s)) = length (fs_buffer s)"
    using s f by (auto simp: merged_def holds_def frag_at_def)
  show ?thesis
    using s i c buf unfolding holds_def fields by (auto simp: nth_list_update)
qed

lemma holds_complete:
  assumes s: "holds c d fs R s" and frags: "fragmentation n c d fs" and full: "R = {..<length fs}"
  shows "fs_channel s = c" and "fs_buffer s = d"
proof -
  show "fs_channel s = c" using s frags full by (auto simp: holds_def fragmentation_def)
  show "fs_buffer s = d"
  proof (rule nth_equalityI)
    show "length (fs_buffer s) = length d" using s by (simp add: holds_def)
  next
    fix p
    assume "p < length (fs_buffer s)"
    with s have p: "p < length d" by (simp add: holds_def)
    with frags obtain i where "i < length fs" "p \<in> span (fs ! i)"
      unfolding fragmentation_def by (metis in_set_conv_nth)
    with s p full show "fs_buffer s ! p = d ! p" by (auto simp: holds_def)
  qed
qed

lemma holds_count:
  assumes "holds c d fs R s" and "R \<subseteq> {..<length fs}"
  shows "count_true (received_mask s) = card R"
proof -
  have "{i. i < length (received_mask s) \<and> received_mask s ! i} = R"
    using assms by (auto simp: holds_def)
  then show ?thesis by (simp add: count_true_card)
qed

section \<open>One arrival\<close>

text \<open>How a reassembler stands for the seen numbers of the message with key \<open>key\<close>: no set while
  nothing is seen, else a set created not before \<open>t0\<close>.\<close>

definition sim :: "FragmentKey \<Rightarrow> string \<Rightarrow> bytes \<Rightarrow> Fragment list \<Rightarrow> Instant
    \<Rightarrow> FragmentReassembler \<Rightarrow> nat set \<Rightarrow> bool" where
  "sim key c d fs t0 r R \<longleftrightarrow> R \<subset> {..<length fs} \<and>
     (case pending r key of
        None \<Rightarrow> R = {}
      | Some s \<Rightarrow> R \<noteq> {} \<and> holds c d fs R s \<and> t0 \<le> created_at s)"

lemma fresh_not_expired:
  "t0 \<le> created_at s \<Longrightarrow> now \<le> t0 + timeout r \<Longrightarrow> duration_since now (created_at s) \<le> timeout r"
  by (auto simp: duration_since_def)

lemma sim_expire_stale:
  assumes "sim key c d fs t0 r R" and "now \<le> t0 + timeout r"
  shows "sim key c d fs t0 (expire_stale r now) R"
proof (cases "pending r key")
  case None
  then have "pending (expire_stale r now) key = None" by (simp add: expire_stale_def)
  with None assms(1) show ?thesis by (auto simp: sim_def)
next
  case (Some s)
  with assms have "pending (expire_stale r now) key = Some s"
    by (auto simp: pending_expire_stale sim_def intro!: fresh_not_expired)
  with Some assms(1) show ?thesis by (simp add: sim_def)
qed

lemma sim_put_other:
  "key' \<noteq> key \<Longrightarrow> sim key c d fs t0 r R \<Longrightarrow> sim key c d fs t0 (put_set r key' s) R"
  by (simp add: sim_def)

lemma sim_touched:
  assumes sim: "sim (key_of f sender) c d fs t0 r R" and f: "frag_at n c d (length fs) i f"
    and "t0 \<le> now'"
  shows "holds c d fs R (touched r f sender now')"
    and "t0 \<le> created_at (touched r f sender now')"
    and "i = 0 \<Longrightarrow> fs_channel (touched r f sender now') = c"
proof -
  let ?s = "case pending r (key_of f sender) of None \<Rightarrow> new_set f now' | Some fs \<Rightarrow> fs"
  have s: "holds c d fs R ?s" "t0 \<le> created_at ?s"
    using assms by (auto simp: sim_def new_set_def intro: holds_new split: option.splits)
      (auto simp: holds_def frag_at_def)
  show "holds c d fs R (touched r f sender now')"
    and "i = 0 \<Longrightarrow> fs_channel (touched r f sender now') = c"
    using holds_store_channel [OF s(1) f] by (simp_all add: touched_def)
  show "t0 \<le> created_at (touched r f sender now')"
    using s(2) by (simp add: touched_def set_update)
qed

definition delivered :: "u32 \<Rightarrow> string \<Rightarrow> bytes \<Rightarrow> bool \<Rightarrow> LcmMessage option" where
  "delivered n c d b =
     (if b then Some \<lparr>msg_channel = c, msg_sequence_number = n, msg_data = d\<rparr> else None)"

lemma sim_own_step:
  assumes ok: "reassembler_ok r" and frags: "fragmentation n c d fs"
    and sim: "sim (sender, n) c d fs t0 r R"
    and i: "i < length fs" and size: "length d \<le> max_message_size r"
    and time: "now \<le> t0 + timeout r" "t0 \<le> now'"
  shows "\<exists>r'. process r (fs ! i) sender now now' =
      Ret (r', delivered n c d (snd (seen_step (length fs) R i))) \<and>
      sim (sender, n) c d fs t0 r' (fst (seen_step (length fs) R i))"
proof -
  define f where "f = fs ! i"
  define r1 where "r1 = expire_stale r now"
  define s where "s = touched r1 f sender now'"
  have f: "frag_at n c d (length fs) i f" using frags i by (simp add: fragmentation_def f_def)
  then have key: "key_of f sender = (sender, n)" by (simp add: key_of_def frag_at_def)
  have sim1: "sim (key_of f sender) c d fs t0 r1 R"
    using sim_expire_stale [OF sim time(1)] by (simp add: r1_def key)
  note s = sim_touched [OF sim1 f time(2), folded s_def]
  have fits: "unat (frag_payload_size f) \<le> max_message_size r1"
    using f size by (simp add: frag_at_def r1_def)
  have s_ok: "set_ok s"
    using touched_ok(1) [OF reassembler_ok_expire_stale [OF ok] fits [unfolded r1_def]]
    by (simp add: s_def r1_def)
  have R: "R \<subset> {..<length fs}" using sim by (simp add: sim_def)
  have acc: "accepts f s \<longleftrightarrow> i \<notin> R" using s(1) f i by (rule holds_accepts)
  note eq = process_eq [OF ok, of f sender now now', folded r1_def, folded s_def]
  have fits': "\<not> max_message_size r < unat (frag_payload_size f)" using fits by (simp add: r1_def)
  show ?thesis
  proof (cases "i \<in> R")
    case True
    with R s have "sim (sender, n) c d fs t0 (put_set r1 (sender, n) (Some s)) R"
      by (auto simp: sim_def)
    with True acc eq fits' show ?thesis
      by (simp add: f_def [symmetric] key seen_step_def delivered_def)
  next
    case False
    with acc have acc: "accepts f s" by simp
    have m: "holds c d fs (insert i R) (merged f s)"
      using s(1) f i False f_def s(3) by (rule holds_merged)
    have "unat (fragments_received s) = card R"
      using s_ok holds_count [OF s(1)] R by (auto simp: set_ok_def)
    moreover have "unat (fs_n_fragments s) = length fs" using s(1) by (simp add: holds_def)
    moreover have "card (insert i R) = Suc (card R)"
      using False R finite_subset [of R "{..<length fs}"] by auto
    moreover have "insert i R \<subseteq> {..<length fs}" using R i by auto
    then have "insert i R = {..<length fs} \<longleftrightarrow> card (insert i R) = length fs"
      by (metis card_lessThan card_subset_eq finite_lessThan)
    ultimately have last: "fragments_received s + 1 = fs_n_fragments s \<longleftrightarrow> insert i R = {..<length fs}"
      using accepts_counter(2) [OF s_ok acc] by (simp add: word_unat_eq_iff)
    show ?thesis
    proof (cases "insert i R = {..<length fs}")
      case True
      have "message_of f (merged f s) = \<lparr>msg_channel = c, msg_sequence_number = n, msg_data = d\<rparr>"
        using holds_complete [OF m frags True] f by (simp add: message_of_def frag_at_def)
      moreover have "sim (sender, n) c d fs t0 (put_set r1 (sender, n) None) {}"
        using i by (auto simp: sim_def)
      ultimately show ?thesis
        using True False eq acc last fits'
        by (simp add: f_def [symmetric] key seen_step_def delivered_def)
    next
      case more: False
      have "sim (sender, n) c d fs t0 (put_set r1 (sender, n) (Some (merged f s))) (insert i R)"
        using m more R i s(2) by (auto simp: sim_def merged_def)
      then show ?thesis
        using more False eq acc last fits'
        by (simp add: f_def [symmetric] key seen_step_def delivered_def)
    qed
  qed
qed

lemma sim_other_step:
  assumes ok: "reassembler_ok r" and sim: "sim key c d fs t0 r R"
    and other: "key_of f sender \<noteq> key" and "now \<le> t0 + timeout r"
    and "process r f sender now now' = Ret (r', out)"
  shows "sim key c d fs t0 r' R"
proof -
  have "sim key c d fs t0 (expire_stale r now) R"
    using sim assms(4) by (rule sim_expire_stale)
  with assms(5) sim_put_other [OF other this] show ?thesis
    by (auto simp: process_eq [OF ok] split: if_splits)
qed

section \<open>Any sequence of arrivals\<close>

fun seen_run :: "nat \<Rightarrow> nat set \<Rightarrow> nat list \<Rightarrow> bool list" where
  "seen_run k R [] = []"
| "seen_run k R (i # is) = snd (seen_step k R i) # seen_run k (fst (seen_step k R i)) is"

text \<open>The fragment numbers that arrive for a key, and the answers \<open>process\<close> gives to them.\<close>

definition is_for :: "FragmentKey \<Rightarrow> arrival \<Rightarrow> bool" where
  "is_for key = (\<lambda>(f, sender, _, _). key_of f sender = key)"

definition numbers_for :: "FragmentKey \<Rightarrow> arrival list \<Rightarrow> nat list" where
  "numbers_for key arrivals =
     map (\<lambda>(f, _). unat (frag_fragment_number f)) (filter (is_for key) arrivals)"

definition answers_for :: "FragmentKey \<Rightarrow> arrival list \<Rightarrow> 'a list \<Rightarrow> 'a list" where
  "answers_for key arrivals outs =
     map snd (filter (\<lambda>(a, _). is_for key a) (zip arrivals outs))"

text \<open>The arrivals fall in the window that starts at \<open>t0\<close>, and those for \<open>key\<close> are fragments
  of the message.\<close>

definition arrival_ok :: "FragmentKey \<Rightarrow> Fragment list \<Rightarrow> Instant \<Rightarrow> Duration \<Rightarrow> arrival \<Rightarrow> bool" where
  "arrival_ok key fs t0 window = (\<lambda>(f, sender, now, now').
     now \<le> t0 + window \<and> t0 \<le> now' \<and> (key_of f sender = key \<longrightarrow> f \<in> set fs))"

lemma process_arrivals_refine:
  assumes "reassembler_ok r" and "fragmentation n c d fs" and "sim (sender, n) c d fs t0 r R"
    and "length d \<le> max_message_size r"
    and "\<forall>a \<in> set arrivals. arrival_ok (sender, n) fs t0 (timeout r) a"
  shows "\<exists>r' outs. run_steps process_arrival r arrivals = Ret (r', outs) \<and> reassembler_ok r' \<and>
    answers_for (sender, n) arrivals outs =
      map (delivered n c d) (seen_run (length fs) R (numbers_for (sender, n) arrivals))"
  using assms
proof (induction arrivals arbitrary: r R)
  case Nil
  then show ?case by (simp add: answers_for_def numbers_for_def)
next
  case (Cons a arrivals)
  obtain f sender' now now' where a: "a = (f, sender', now, now')" by (cases a)
  with Cons.prems(5) have time: "now \<le> t0 + timeout r" "t0 \<le> now'"
    and mem: "key_of f sender' = (sender, n) \<Longrightarrow> f \<in> set fs"
    by (auto simp: arrival_ok_def)
  obtain r1 out where step: "process r f sender' now now' = Ret (r1, out)"
    and r1: "reassembler_ok r1" "timeout r1 = timeout r" "max_message_size r1 = max_message_size r"
    using process_ok [OF Cons.prems(1), of f sender' now now'] by blast
  have "\<exists>R1. sim (sender, n) c d fs t0 r1 R1 \<and>
      (if is_for (sender, n) a
       then seen_step (length fs) R (unat (frag_fragment_number f)) = (R1, out \<noteq> None)
          \<and> out = delivered n c d (out \<noteq> None)
       else R1 = R)"
  proof (cases "is_for (sender, n) a")
    case True
    then have key: "key_of f sender' = (sender, n)" by (simp add: is_for_def a)
    with mem obtain i where i: "i < length fs" "f = fs ! i" by (auto simp: in_set_conv_nth)
    with Cons.prems(2) have num: "unat (frag_fragment_number f) = i"
      by (simp add: fragmentation_def frag_at_def)
    from key have "sender' = sender" by (simp add: key_of_def)
    with sim_own_step [OF Cons.prems(1-3) i(1) Cons.prems(4) time] step i(2) num True
    show ?thesis by (auto simp: delivered_def prod_eq_iff)
  next
    case False
    then have "key_of f sender' \<noteq> (sender, n)" by (simp add: is_for_def a)
    from sim_other_step [OF Cons.prems(1,3) this time(1) step] False show ?thesis by auto
  qed
  then obtain R1 where R1: "sim (sender, n) c d fs t0 r1 R1"
    and own: "is_for (sender, n) a \<Longrightarrow>
      seen_step (length fs) R (unat (frag_fragment_number f)) = (R1, out \<noteq> None)
      \<and> out = delivered n c d (out \<noteq> None)"
    and other: "\<not> is_for (sender, n) a \<Longrightarrow> R1 = R"
    by (auto split: if_splits)
  from Cons.IH [OF r1(1) Cons.prems(2) R1] Cons.prems(4,5) r1
  obtain r' outs where IH: "run_steps process_arrival r1 arrivals = Ret (r', outs)" "reassembler_ok r'"
    "answers_for (sender, n) arrivals outs =
       map (delivered n c d) (seen_run (length fs) R1 (numbers_for (sender, n) arrivals))"
    by auto
  from step IH(1) have "run_steps process_arrival r (a # arrivals) = Ret (r', out # outs)" by (simp add: a process_arrival_def)
  moreover have "answers_for (sender, n) (a # arrivals) (out # outs) =
      map (delivered n c d) (seen_run (length fs) R (numbers_for (sender, n) (a # arrivals)))"
    using IH(3) own other by (cases "is_for (sender, n) a")
      (auto simp: answers_for_def numbers_for_def a)
  ultimately show ?case using IH(2) by blast
qed

lemma seen_run_incomplete:
  "R \<union> set is \<subset> {..<k} \<Longrightarrow>
     seen_run k R (is @ js) = replicate (length is) False @ seen_run k (R \<union> set is) js"
proof (induction "is" arbitrary: R)
  case (Cons i "is")
  have "insert i R \<noteq> {..<k}" using Cons.prems by auto
  then have step: "seen_step k R i = (insert i R, False)" by (auto simp: seen_step_def)
  have "insert i R \<union> set is \<subset> {..<k}" using Cons.prems by auto
  from Cons.IH [OF this] step show ?case by simp
qed simp

lemma seen_run_complete:
  assumes "set is \<subset> {..<k}" and "insert i (set is) = {..<k}"
  shows "seen_run k {} (is @ [i]) = replicate (length is) False @ [True]"
proof -
  from assms have "i \<notin> set is" by auto
  with assms(2) have "seen_step k (set is) i = ({}, True)" by (simp add: seen_step_def)
  with assms(1) show ?thesis by (simp add: seen_run_incomplete)
qed

lemma sim_initial:
  "pending r (sender, n) = None \<Longrightarrow> fragmentation n c d fs \<Longrightarrow> sim (sender, n) c d fs t0 r {}"
  by (auto simp: sim_def fragmentation_def)

lemma numbers_in_range:
  assumes "fragmentation n c d fs" and "\<forall>a \<in> set arrivals. arrival_ok (sender, n) fs t0 w a"
  shows "set (numbers_for (sender, n) arrivals) \<subseteq> {..<length fs}"
proof -
  have "unat (frag_fragment_number f) < length fs" if "f \<in> set fs" for f
    using that assms(1) by (auto simp: fragmentation_def frag_at_def in_set_conv_nth)
  with assms(2) show ?thesis
    by (fastforce simp: numbers_for_def is_for_def arrival_ok_def)
qed

section \<open>Properties\<close>

lemma answers_of_message:
  assumes "reassembler_ok r" and "fragmentation n c d fs" and "pending r (sender, n) = None"
    and "length d \<le> max_message_size r"
    and "\<forall>a \<in> set arrivals. arrival_ok (sender, n) fs t0 (timeout r) a"
  shows "\<exists>r' outs. run_steps process_arrival r arrivals = Ret (r', outs) \<and> reassembler_ok r' \<and>
    answers_for (sender, n) arrivals outs =
      map (delivered n c d) (seen_run (length fs) {} (numbers_for (sender, n) arrivals))"
  using assms by (intro process_arrivals_refine sim_initial) auto

text \<open>Claim C2. \<open>FragmentReassembler::process\<close> refines the machine that remembers only which
  fragment numbers it has seen. Whatever arrives, in whatever order, with duplicates and with
  fragments of other senders and sequence numbers in between, the answers to the fragments of one
  message within the timeout window are those of that machine, and no call panics.\<close>

theorem process_refines_seen_numbers:
  assumes "reassembler_ok r" and "fragmentation n c d fs" and "pending r (sender, n) = None"
    and "length d \<le> max_message_size r"
    and "\<forall>a \<in> set arrivals. arrival_ok (sender, n) fs t0 (timeout r) a"
  shows "\<exists>r' outs. run_steps process_arrival r arrivals = Ret (r', outs) \<and>
    answers_for (sender, n) arrivals outs =
      map (delivered n c d) (seen_run (length fs) {} (numbers_for (sender, n) arrivals))"
  using answers_of_message [OF assms] by blast

definition example_fragments :: "Fragment list" where
  "example_fragments =
     [\<lparr>frag_sequence_number = 1, frag_payload_size = 3, frag_fragment_offset = 0,
       frag_fragment_number = 0, frag_n_fragments = 2, frag_channel = Some ''CH'', frag_data = [10, 20]\<rparr>,
      \<lparr>frag_sequence_number = 1, frag_payload_size = 3, frag_fragment_offset = 2,
       frag_fragment_number = 1, frag_n_fragments = 2, frag_channel = None, frag_data = [30]\<rparr>]"

definition example_reassembler :: FragmentReassembler where
  "example_reassembler = FragmentReassembler_new 10 100"

definition stray_fragment :: Fragment where
  "stray_fragment = (example_fragments ! 0)\<lparr>frag_sequence_number := 9\<rparr>"

definition example_arrivals :: "arrival list" where
  "example_arrivals =
     [(example_fragments ! 1, example_sender, 5, 5), (stray_fragment, example_sender, 6, 6),
      (example_fragments ! 1, example_sender, 7, 7), (example_fragments ! 0, example_sender, 8, 8)]"

lemma example_fragmentation: "fragmentation 1 ''CH'' [10, 20, 30] example_fragments"
proof -
  have "frag_at 1 ''CH'' [10, 20, 30] 2 0 (example_fragments ! 0)"
    "frag_at 1 ''CH'' [10, 20, 30] 2 1 (example_fragments ! 1)"
    by (simp_all add: frag_at_def example_fragments_def)
  then have "\<forall>i < 2. frag_at 1 ''CH'' [10, 20, 30] 2 i (example_fragments ! i)"
    by (metis less_2_cases One_nat_def)
  moreover have spans: "span (example_fragments ! 0) = {0..<2}" "span (example_fragments ! 1) = {2..<3}"
    by (auto simp: span_def example_fragments_def)
  have "\<exists>f \<in> set example_fragments. p \<in> span f" if "p < 3" for p
  proof (cases "p < 2")
    case True
    then show ?thesis
      using spans by (intro bexI [where x = "example_fragments ! 0"]) (simp_all add: example_fragments_def)
  next
    case False
    then show ?thesis
      using spans that
      by (intro bexI [where x = "example_fragments ! 1"]) (simp_all add: example_fragments_def)
  qed
  moreover have "length example_fragments = 2" "example_fragments \<noteq> []"
    by (simp_all add: example_fragments_def)
  ultimately show ?thesis by (simp add: fragmentation_def)
qed

lemma example_reassembler_ok:
  "reassembler_ok example_reassembler" "pending example_reassembler key = None"
  "timeout example_reassembler = 10" "max_message_size example_reassembler = 100"
  using reassembler_ok_new [of 10 100]
  by (simp_all add: example_reassembler_def reassembler_inv_def) (simp_all add: FragmentReassembler_new_def)

lemma example_arrivals_ok:
  "\<forall>a \<in> set example_arrivals. arrival_ok (example_sender, 1) example_fragments 5 10 a"
  by (simp add: example_arrivals_def arrival_ok_def stray_fragment_def example_fragments_def key_of_def)

lemma example_numbers: "numbers_for (example_sender, 1) example_arrivals = [1, 1] @ [0]"
  by (simp add: numbers_for_def is_for_def example_arrivals_def stray_fragment_def
      example_fragments_def key_of_def)

lemma length_example_fragments: "length example_fragments = 2"
  by (simp add: example_fragments_def)

lemma all_example_numbers: "set [1, 1::nat] \<subset> {..<2}" "insert 0 (set [1, 1::nat]) = {..<2}"
  by (auto simp: numeral_2_eq_2)

theorem process_refines_seen_numbers_witness:
  "\<exists>r' outs. run_steps process_arrival example_reassembler example_arrivals = Ret (r', outs) \<and>
    answers_for (example_sender, 1) example_arrivals outs =
      map (delivered 1 ''CH'' [10, 20, 30]) (seen_run 2 {} [1, 1, 0])"
  using process_refines_seen_numbers [OF example_reassembler_ok(1) example_fragmentation
      example_reassembler_ok(2), where sender = example_sender and arrivals = example_arrivals and ?t0.0 = 5]
    example_arrivals_ok
  by (simp only: example_reassembler_ok example_numbers length_example_fragments) simp

text \<open>A message is delivered exactly when its last missing fragment arrives, with its
  channel and its bytes, and not before: whatever order the fragments arrive in, whatever
  duplicates precede the last one, every earlier fragment is answered by nothing.\<close>

lemma last_fragment_delivers:
  assumes "reassembler_ok r" and "fragmentation n c d fs" and "pending r (sender, n) = None"
    and "length d \<le> max_message_size r"
    and "\<forall>a \<in> set arrivals. arrival_ok (sender, n) fs t0 (timeout r) a"
    and "numbers_for (sender, n) arrivals = is @ [i]"
    and "set is \<subset> {..<length fs}" and "insert i (set is) = {..<length fs}"
  shows "\<exists>r' outs. run_steps process_arrival r arrivals = Ret (r', outs) \<and>
    answers_for (sender, n) arrivals outs = replicate (length is) None @
      [Some \<lparr>msg_channel = c, msg_sequence_number = n, msg_data = d\<rparr>]"
  using answers_of_message [OF assms(1-5)] assms(6) seen_run_complete [OF assms(7,8)]
  by (auto simp: delivered_def map_replicate_const)

lemma last_fragment_delivers_example:
  "\<exists>r' outs. run_steps process_arrival example_reassembler example_arrivals = Ret (r', outs) \<and>
    answers_for (example_sender, 1) example_arrivals outs =
      [None, None, Some \<lparr>msg_channel = ''CH'', msg_sequence_number = 1, msg_data = [10, 20, 30]\<rparr>]"
  using last_fragment_delivers [OF example_reassembler_ok(1) example_fragmentation
      example_reassembler_ok(2) _ _ example_numbers, where ?t0.0 = 5]
    example_arrivals_ok all_example_numbers
  by (simp only: example_reassembler_ok length_example_fragments) (simp add: numeral_2_eq_2)

text \<open>Nothing is delivered of a message one of whose fragments never arrives.\<close>

lemma missing_fragment_delivers_nothing:
  assumes "reassembler_ok r" and "fragmentation n c d fs" and "pending r (sender, n) = None"
    and "length d \<le> max_message_size r"
    and "\<forall>a \<in> set arrivals. arrival_ok (sender, n) fs t0 (timeout r) a"
    and "i < length fs" and "i \<notin> set (numbers_for (sender, n) arrivals)"
  shows "\<exists>r' outs. run_steps process_arrival r arrivals = Ret (r', outs) \<and>
    set (answers_for (sender, n) arrivals outs) \<subseteq> {None}"
proof -
  let ?is = "numbers_for (sender, n) arrivals"
  have "set ?is \<subseteq> {..<length fs}"
    using assms(2,5) by (rule numbers_in_range)
  with assms(6,7) have "set ?is \<subset> {..<length fs}" by auto
  from seen_run_incomplete [of "{}" ?is "length fs" "[]"] this
  have "seen_run (length fs) {} ?is = replicate (length ?is) False" by simp
  with answers_of_message [OF assms(1-5)] show ?thesis
    by (auto simp: delivered_def map_replicate_const)
qed

lemma missing_fragment_delivers_nothing_example:
  "\<exists>r' outs. run_steps process_arrival example_reassembler (butlast example_arrivals) = Ret (r', outs) \<and>
    set (answers_for (example_sender, 1) (butlast example_arrivals) outs) \<subseteq> {None}"
proof -
  have "0 \<notin> set (numbers_for (example_sender, 1) (butlast example_arrivals))"
    by (simp add: numbers_for_def is_for_def example_arrivals_def stray_fragment_def
        example_fragments_def key_of_def)
  moreover have "0 < length example_fragments" by (simp add: length_example_fragments)
  moreover have "\<forall>a \<in> set (butlast example_arrivals).
      arrival_ok (example_sender, 1) example_fragments 5 (timeout example_reassembler) a"
    using example_arrivals_ok by (auto simp: example_reassembler_ok dest: in_set_butlastD)
  ultimately show ?thesis
    by (intro missing_fragment_delivers_nothing [OF example_reassembler_ok(1) example_fragmentation
      example_reassembler_ok(2)]) (simp_all only: example_reassembler_ok, simp)
qed

end
