(* ===== verification/Sending.thy ===== *)
theory Sending
  imports Multicast Reassembly_Refinement
begin

text \<open>
  What \<open>send\<close> puts on the wire. The fragmentation loop is shown to emit, in order, one datagram
  per fragment of a closed-form list; that list is a fragmentation of the message in the sense of
  the reassembly refinement whenever the fragment count fits the 16-bit field. Both the failing
  sends and the truncated counts are covered by the same equations.
\<close>

section \<open>The fragments the loop emits\<close>

definition frag_start :: "usize \<Rightarrow> usize \<Rightarrow> nat \<Rightarrow> usize" where
  "frag_start fc sc i = (if i = 0 then 0 else fc + (i - 1) * sc)"

definition chunk_of :: "usize \<Rightarrow> usize \<Rightarrow> bytes \<Rightarrow> nat \<Rightarrow> bytes" where
  "chunk_of fc sc data i = take (if i = 0 then fc else sc) (drop (frag_start fc sc i) data)"

definition sent_fragment ::
  "u32 \<Rightarrow> usize \<Rightarrow> usize \<Rightarrow> string \<Rightarrow> bytes \<Rightarrow> u16 \<Rightarrow> nat \<Rightarrow> Fragment" where
  "sent_fragment seq fc sc channel data n i =
     \<lparr>frag_sequence_number = seq, frag_payload_size = word_of_nat (length data),
      frag_fragment_offset = word_of_nat (min (frag_start fc sc i) (length data)),
      frag_fragment_number = word_of_nat i, frag_n_fragments = n,
      frag_channel = (if i = 0 then Some channel else None),
      frag_data = chunk_of fc sc data i\<rparr>"

text \<open>Sending a list of datagrams, stopping at the first failure.\<close>

fun send_all ::
  "(nat \<Rightarrow> bytes \<Rightarrow> 'e option) \<Rightarrow> SocketAddr \<Rightarrow> Net \<Rightarrow> bytes list \<Rightarrow> Net \<times> ('e io_error + unit)" where
  "send_all os addr net [] = (net, Inr ())"
| "send_all os addr net (p # ps) =
     (case send_to os net p addr of
        (net, Inl e) \<Rightarrow> (net, Inl e)
      | (net, Inr _) \<Rightarrow> send_all os addr net ps)"

lemma frag_start_Suc: "frag_start fc sc (Suc i) = frag_start fc sc i + (if i = 0 then fc else sc)"
  by (cases i) (simp_all add: frag_start_def)

lemma slice_chunk:
  "slice data (min s (length data)) (min (min s (length data) + sc) (length data)) =
     Ret (take sc (drop s data))"
  by (cases "s \<le> length data") (auto simp: in_range min_def)

lemma chunk_end:
  "min (frag_start fc sc i) (length data) + length (chunk_of fc sc data i) =
     min (frag_start fc sc (Suc i)) (length data)"
  by (auto simp: chunk_of_def frag_start_Suc min_def)

lemma encode_sent_fragment:
  "encode_fragment buf seq (word_of_nat (length data)) (word_of_nat (min (frag_start fc sc i) (length data)))
     (word_of_nat i) n (if i = 0 then Some channel else None) (chunk_of fc sc data i) =
   encode_packet (Frag (sent_fragment seq fc sc channel data n i))"
  by (simp add: sent_fragment_def encode_fragment_eq)

lemma send_loop_eq:
  assumes "offset = min (frag_start fc sc i) (length data)"
  shows "send_loop os addr seq (word_of_nat (length data)) fc sc channel data n i buf offset net =
    Ret (send_all os addr net
      (map (\<lambda>j. encode_packet (Frag (sent_fragment seq fc sc channel data n j))) [i..<unat n]))"
  using assms
proof (induction "unat n - i" arbitrary: i offset buf net)
  case 0
  then show ?case by (simp add: send_loop.simps)
next
  case (Suc k)
  then have i: "i < unat n" and k: "k = unat n - Suc i" by simp_all
  have chunk: "(if i = 0 then do {
         let end_pos = min fc (length data);
         chunk \<leftarrow> slice_to data end_pos;
         Ret (chunk, Some channel) }
       else do {
         let end_pos = min (offset + sc) (length data);
         chunk \<leftarrow> slice data offset end_pos;
         Ret (chunk, None) }) =
     Ret (chunk_of fc sc data i, if i = 0 then Some channel else None)"
    by (simp add: Suc.prems slice_chunk) (simp add: chunk_of_def frag_start_def in_range min_def)
  have next_off: "offset + length (chunk_of fc sc data i) = min (frag_start fc sc (Suc i)) (length data)"
    using Suc.prems chunk_end by simp
  have "[i..<unat n] = i # [Suc i..<unat n]" using i by (rule upt_conv_Cons)
  then show ?case
    using Suc.hyps(1) [OF k next_off]
    by (subst send_loop.simps)
      (simp add: i chunk Suc.prems encode_sent_fragment next_off split: prod.split sum.split)
qed

section \<open>Partial and complete sends\<close>

lemma send_to_cases:
  obtains e where "send_to os net p addr = (net\<lparr>attempts := attempts net + 1\<rparr>, Inl (OsError e))"
  | "send_to os net p addr =
       (net\<lparr>attempts := attempts net + 1, wire := wire net @ [(addr, p)]\<rparr>, Inr ())"
  by (cases "os (attempts net) p") (auto simp: send_to_def)

lemma send_all_prefix:
  "\<exists>m \<le> length ps. wire (fst (send_all os addr net ps)) = wire net @ map (Pair addr) (take m ps) \<and>
     (snd (send_all os addr net ps) = Inr () \<longleftrightarrow> m = length ps)"
proof (induction ps arbitrary: net)
  case (Cons p ps)
  show ?case
  proof (cases rule: send_to_cases [of os net p addr])
    case (1 e)
    then show ?thesis by (intro exI [where x = 0]) simp
  next
    case 2
    let ?net = "net\<lparr>attempts := attempts net + 1, wire := wire net @ [(addr, p)]\<rparr>"
    obtain m where "m \<le> length ps"
      "wire (fst (send_all os addr ?net ps)) = wire ?net @ map (Pair addr) (take m ps)"
      "snd (send_all os addr ?net ps) = Inr () \<longleftrightarrow> m = length ps"
      using Cons.IH [of ?net] by auto
    with 2 show ?thesis by (intro exI [where x = "Suc m"]) simp
  qed
qed simp

text \<open>How far it gets: up to the first attempt that the system refuses, whose error it answers.\<close>

lemma send_all_stops:
  "\<exists>m \<le> length ps. fst (send_all os addr net ps) = net\<lparr>attempts := attempts net + min (Suc m) (length ps),
       wire := wire net @ map (Pair addr) (take m ps)\<rparr> \<and>
     (\<forall>j < m. os (attempts net + j) (ps ! j) = None) \<and>
     (if m = length ps then snd (send_all os addr net ps) = Inr ()
      else \<exists>e. os (attempts net + m) (ps ! m) = Some e \<and> snd (send_all os addr net ps) = Inl (OsError e))"
proof (induction ps arbitrary: net)
  case (Cons p ps)
  show ?case
  proof (cases "os (attempts net) p")
    case (Some e)
    then show ?thesis by (intro exI [where x = 0]) (simp add: send_to_def)
  next
    case None
    let ?net = "net\<lparr>attempts := attempts net + 1, wire := wire net @ [(addr, p)]\<rparr>"
    obtain m where m: "m \<le> length ps" "fst (send_all os addr ?net ps) = ?net\<lparr>attempts := attempts ?net +
        min (Suc m) (length ps), wire := wire ?net @ map (Pair addr) (take m ps)\<rparr>"
      "\<forall>j < m. os (attempts ?net + j) (ps ! j) = None"
      "if m = length ps then snd (send_all os addr ?net ps) = Inr ()
       else \<exists>e. os (attempts ?net + m) (ps ! m) = Some e \<and> snd (send_all os addr ?net ps) = Inl (OsError e)"
      using Cons.IH [of ?net] by blast
    have "\<forall>j < Suc m. os (attempts net + j) ((p # ps) ! j) = None"
      using m(3) None by (auto simp: less_Suc_eq_0_disj)
    with m None show ?thesis
      by (intro exI [where x = "Suc m"]) (simp add: send_to_def split: if_splits)
  qed
qed simp

lemma send_all_ok:
  "(\<And>k p. os k p = None) \<Longrightarrow> snd (send_all os addr net ps) = Inr ()"
  by (induction ps arbitrary: net) (auto simp: send_to_def)

lemma send_all_no_failure:
  "send_all (\<lambda>_ _. None) addr net ps =
     (net\<lparr>attempts := attempts net + length ps, wire := wire net @ map (Pair addr) ps\<rparr>, Inr ())"
  by (induction ps arbitrary: net) (auto simp: send_to_def)

lemma send_all_returned:
  assumes "snd (send_all os addr net ps) = Inr ()"
  shows "wire (fst (send_all os addr net ps)) = wire net @ map (Pair addr) ps"
  using send_all_prefix [of ps os addr net] assms by auto

section \<open>Fragment counts\<close>

definition frag_count :: "usize \<Rightarrow> usize \<Rightarrow> usize \<Rightarrow> nat" where
  "frag_count fc sc len =
     1 + (if len - fc + (sc - 1) < 2 ^ 64 then (len - fc + (sc - 1)) div sc else 0)"

definition first_capacity :: "usize \<Rightarrow> string \<Rightarrow> usize" where
  "first_capacity mtu channel = mtu - (FRAGMENT_HEADER_SIZE + length channel + 1)"

definition next_capacity :: "usize \<Rightarrow> usize" where
  "next_capacity mtu = mtu - FRAGMENT_HEADER_SIZE"

text \<open>The datagrams of a fragmented send, for the count \<open>n\<close> that the loop uses.\<close>

definition sent_fragments :: "usize \<Rightarrow> u32 \<Rightarrow> string \<Rightarrow> bytes \<Rightarrow> Fragment list" where
  "sent_fragments mtu seq channel data =
     (let fc = first_capacity mtu channel; sc = next_capacity mtu;
          n = word_of_nat (frag_count fc sc (length data))
      in map (sent_fragment seq fc sc channel data n) [0..<unat n])"

lemma send_fragmented_eq:
  "send_fragmented os t net seq channel data =
     (if first_capacity (fragment_mtu t) channel = 0 then Ret (net, Inl MtuTooSmall)
      else Ret (send_all os (multicast_addr t) net
        (map (\<lambda>f. encode_packet (Frag f)) (sent_fragments (fragment_mtu t) seq channel data))))"
proof -
  have "next_capacity (fragment_mtu t) \<noteq> 0" if "first_capacity (fragment_mtu t) channel \<noteq> 0"
    using that by (auto simp: next_capacity_def first_capacity_def)
  moreover have "1 + (case usize_checked_add (length data - fc) (sc - 1) of
      Some v \<Rightarrow> v div sc | None \<Rightarrow> 0) = frag_count fc sc (length data)" for fc sc
    by (cases "length data - fc + (sc - 1) < 2 ^ 64") (simp_all add: usize_checked_add_def frag_count_def)
  then have "send_fragmented os t net seq channel data =
      (let fc = first_capacity (fragment_mtu t) channel; sc = next_capacity (fragment_mtu t)
       in if fc = 0 \<or> sc = 0 then Ret (net, Inl MtuTooSmall)
       else send_loop os (multicast_addr t) seq (word_of_nat (length data)) fc sc channel data
         (word_of_nat (frag_count fc sc (length data))) 0 [] 0 net)"
    by (simp only: send_fragmented_def Let_def first_capacity_def next_capacity_def
        usize_saturating_sub_eq)
  moreover have "0 = min (frag_start fc sc 0) (length data)" for fc sc by (simp add: frag_start_def)
  ultimately show ?thesis
    by (cases "first_capacity (fragment_mtu t) channel = 0")
      (simp_all add: Let_def sent_fragments_def send_loop_eq comp_def del: encode_packet.simps)
qed

definition sent_datagrams :: "usize \<Rightarrow> u32 \<Rightarrow> string \<Rightarrow> bytes \<Rightarrow> bytes list" where
  "sent_datagrams mtu seq channel data =
     map (\<lambda>f. encode_packet (Frag f)) (sent_fragments mtu seq channel data)"

lemma length_sent_datagrams_sent:
  "length (sent_datagrams mtu seq channel data) = length (sent_fragments mtu seq channel data)"
  by (simp add: sent_datagrams_def)

text \<open>The datagrams of one call of \<open>send\<close>, and the whole call: its counter, its error, its
  datagrams up to the first failure of the socket.\<close>

definition is_short :: "usize \<Rightarrow> string \<Rightarrow> bytes \<Rightarrow> bool" where
  "is_short mtu channel data \<longleftrightarrow> 4 + 4 + length channel + 1 + length data \<le> mtu"

definition datagrams :: "usize \<Rightarrow> u32 \<Rightarrow> string \<Rightarrow> bytes \<Rightarrow> bytes list" where
  "datagrams mtu seq channel data =
     (if is_short mtu channel data then [encode_short_message [] seq channel data]
      else sent_datagrams mtu seq channel data)"

lemma send_to_send_all: "send_to os net p addr = send_all os addr net [p]"
  by (simp add: send_to_def split: option.splits)

lemma send_eq:
  "send os t net channel data =
     (let seq = sequence_counter t; t' = t\<lparr>sequence_counter := seq + 1\<rparr>;
          (net', result) =
            (if \<not> is_short (fragment_mtu t) channel data \<and> first_capacity (fragment_mtu t) channel = 0
             then (net, Inl MtuTooSmall)
             else send_all os (multicast_addr t) net (datagrams (fragment_mtu t) seq channel data))
      in Ret (t', net', case result of Inl e \<Rightarrow> Inl e | Inr _ \<Rightarrow> Inr seq))"
  by (simp add: send_def Let_def send_fragmented_eq send_to_send_all datagrams_def is_short_def
      sent_datagrams_def del: send_all.simps(2) encode_packet.simps split: prod.split sum.split)

lemma send_total: "send os t net channel data \<noteq> Panic"
  by (simp add: send_eq Let_def split: prod.split)

lemma send_extends_wire:
  "\<exists>net' result. send os t net channel data =
      Ret (t\<lparr>sequence_counter := sequence_counter t + 1\<rparr>, net', result) \<and>
    (\<exists>ps. wire net' = wire net @ ps)"
proof -
  have "\<exists>ps. wire (fst (send_all os addr net qs)) = wire net @ ps" for addr qs
    using send_all_prefix [of qs os addr net] by blast
  then show ?thesis
    by (fastforce simp: send_eq Let_def split: prod.split dest: arg_cong [where f = fst])
qed

lemma send_wire:
  assumes "send os t net channel data = Ret (t', net', Inr seq)"
  shows "seq = sequence_counter t" and "t' = t\<lparr>sequence_counter := seq + 1\<rparr>"
    and "wire net' = wire net @
      map (Pair (multicast_addr t)) (datagrams (fragment_mtu t) seq channel data)"
  using assms send_all_returned [of os "multicast_addr t" net
      "datagrams (fragment_mtu t) (sequence_counter t) channel data"]
  by (auto simp: send_eq Let_def split: prod.splits sum.splits if_splits)

lemma chunk_data_of:
  "chunk_of fc sc d i = take (length (chunk_of fc sc d i)) (drop (min (frag_start fc sc i) (length d)) d)"
  by (auto simp: chunk_of_def min_def)

lemma frag_at_sent:
  assumes "length d < 2 ^ 32" and "k < 65536" and "i < k"
  shows "frag_at seq channel d k i (sent_fragment seq fc sc channel d (word_of_nat k) i)"
proof -
  have "min (frag_start fc sc i) (length d) < 2 ^ 32" using assms(1) by simp
  then have off: "unat (word_of_nat (min (frag_start fc sc i) (length d)) :: u32)
      = min (frag_start fc sc i) (length d)" by simp
  have "min (frag_start fc sc i) (length d) + length (chunk_of fc sc d i) \<le> length d"
    by (simp only: chunk_end min.cobounded2)
  with assms off show ?thesis
    using chunk_data_of [of fc sc d i] unfolding frag_at_def sent_fragment_def
    by simp
qed

lemma chunk_covers:
  assumes "0 < fc" "0 < sc" and p: "p < len" and "len - fc + (sc - 1) < 2 ^ 64"
  shows "\<exists>i < frag_count fc sc len. frag_start fc sc i \<le> p \<and> p < frag_start fc sc (Suc i)"
proof (cases "p < fc")
  case True
  then show ?thesis by (intro exI [where x = 0]) (simp add: frag_start_def frag_count_def)
next
  case False
  define q where "q = (p - fc) div sc"
  have q: "q * sc \<le> p - fc" "p - fc < q * sc + sc"
    using assms(2) dividend_less_div_times [of sc "p - fc"]
    by (simp_all add: q_def algebra_simps)
  have "q + 1 = (p - fc + sc) div sc" using assms(2) by (simp add: q_def div_add_self2)
  also have "\<dots> \<le> (len - fc + (sc - 1)) div sc" using p False assms(2) by (intro div_le_mono) auto
  finally have "Suc q < frag_count fc sc len" using assms(4) by (simp add: frag_count_def)
  moreover have "frag_start fc sc (Suc q) \<le> p" "p < frag_start fc sc (Suc (Suc q))"
    using q False by (auto simp: frag_start_def)
  ultimately show ?thesis by blast
qed

lemma length_sent_fragments:
  "length (sent_fragments mtu seq channel data) =
     frag_count (first_capacity mtu channel) (next_capacity mtu) (length data) mod 65536"
  by (simp add: sent_fragments_def Let_def)

text \<open>The message needs no more fragments than the 16-bit count can say, and its length fits the
  32-bit size field: then the send is a fragmentation of the message.\<close>

definition fragmentable :: "usize \<Rightarrow> string \<Rightarrow> bytes \<Rightarrow> bool" where
  "fragmentable mtu channel data \<longleftrightarrow>
     0 < first_capacity mtu channel \<and> length data < 2 ^ 32 \<and> mtu < 2 ^ 63 \<and>
     frag_count (first_capacity mtu channel) (next_capacity mtu) (length data) < 65536"

lemma sent_fragments_nth:
  assumes "fragmentable mtu channel data" and "i < length (sent_fragments mtu seq channel data)"
  shows "sent_fragments mtu seq channel data ! i =
    sent_fragment seq (first_capacity mtu channel) (next_capacity mtu) channel data
      (word_of_nat (length (sent_fragments mtu seq channel data))) i"
  using assms by (simp add: sent_fragments_def Let_def fragmentable_def)

lemma fragmentation_sent:
  assumes fr: "fragmentable mtu channel data"
  shows "fragmentation seq channel data (sent_fragments mtu seq channel data)"
proof -
  let ?fc = "first_capacity mtu channel" and ?sc = "next_capacity mtu"
  let ?fs = "sent_fragments mtu seq channel data" and ?k = "frag_count ?fc ?sc (length data)"
  have cap: "0 < ?fc" "0 < ?sc" "mtu < 2 ^ 63"
    using fr by (auto simp: fragmentable_def next_capacity_def first_capacity_def)
  have len: "length ?fs = ?k" "?k < 65536" "length data < 2 ^ 32"
    using fr by (auto simp: length_sent_fragments fragmentable_def)
  have nth: "?fs ! i = sent_fragment seq ?fc ?sc channel data (word_of_nat ?k) i" if "i < ?k" for i
    using sent_fragments_nth [OF fr, of i seq] that len by simp
  have "?fs \<noteq> []" using len(1) by (auto simp: frag_count_def)
  moreover have "frag_at seq channel data (length ?fs) i (?fs ! i)" if "i < length ?fs" for i
    using that len nth frag_at_sent [of data ?k i] by simp
  moreover have "\<exists>f \<in> set ?fs. p \<in> span f" if p: "p < length data" for p
  proof -
    have "length data - ?fc + (?sc - 1) < 2 ^ 64"
      using cap len(3) by (simp add: next_capacity_def)
    from chunk_covers [OF cap(1,2) p this] obtain i where i: "i < ?k"
      "frag_start ?fc ?sc i \<le> p" "p < frag_start ?fc ?sc (Suc i)" by blast
    have "p \<in> span (?fs ! i)"
      using i nth [OF i(1)] p len(3) chunk_end [of ?fc ?sc i data]
      by (simp add: span_def sent_fragment_def)
    moreover have "?fs ! i \<in> set ?fs" using i(1) len(1) by simp
    ultimately show ?thesis by blast
  qed
  ultimately show ?thesis by (simp add: fragmentation_def)
qed

lemma length_sent_datagram:
  assumes "fragmentable mtu channel data" and "f \<in> set (sent_fragments mtu seq channel data)"
  shows "length (encode_packet (Frag f)) \<le> mtu"
proof -
  from assms obtain i n where f: "f = sent_fragment seq (first_capacity mtu channel)
      (next_capacity mtu) channel data n i"
    by (auto simp: sent_fragments_def Let_def)
  with assms(1) show ?thesis
    by (auto simp: length_encode_fragment sent_fragment_def chunk_of_def channel_field_def
        fragmentable_def first_capacity_def next_capacity_def)
qed

section \<open>The bytes the fragments carry\<close>

lemma concat_chunks:
  "concat (map (chunk_of fc sc data) [0..<n]) = take (frag_start fc sc n) data"
proof (induction n)
  case 0
  then show ?case by (simp add: frag_start_def)
next
  case (Suc n)
  then show ?case
    by (simp add: chunk_of_def frag_start_Suc [of _ _ n] take_add)
qed

lemma sent_bytes:
  "concat (map frag_data (sent_fragments mtu seq channel data)) =
     take (frag_start (first_capacity mtu channel) (next_capacity mtu)
       (length (sent_fragments mtu seq channel data))) data"
proof -
  have "map frag_data (sent_fragments mtu seq channel data) =
    map (chunk_of (first_capacity mtu channel) (next_capacity mtu) data)
      [0..<length (sent_fragments mtu seq channel data)]"
    by (simp add: sent_fragments_def Let_def sent_fragment_def comp_def)
  then show ?thesis by (simp only: concat_chunks)
qed

lemma frag_start_full:
  assumes "0 < sc" and "len - fc + (sc - 1) < 2 ^ 64"
  shows "len \<le> frag_start fc sc (frag_count fc sc len)"
proof -
  have "len - fc \<le> ((len - fc + (sc - 1)) div sc) * sc"
    using assms(1) dividend_less_div_times [of sc "len - fc + (sc - 1)"] by simp
  then show ?thesis using assms by (cases "len \<le> fc") (auto simp: frag_count_def frag_start_def)
qed

lemma frag_start_short:
  assumes "0 < fc" and "fc < len" and "0 < sc" and "n < frag_count fc sc len"
  shows "frag_start fc sc n < len"
proof (cases n)
  case 0
  with assms show ?thesis by (simp add: frag_start_def)
next
  case (Suc m)
  with assms(4) have "Suc m \<le> (len - fc + (sc - 1)) div sc"
    by (simp add: frag_count_def split: if_splits)
  then have "Suc m * sc \<le> len - fc + (sc - 1)"
    using assms(3) by (simp add: less_eq_div_iff_mult_less_eq)
  with assms(2,3) Suc show ?thesis by (simp add: frag_start_def)
qed

text \<open>Each fragment starts where the bytes of the earlier ones end.\<close>

lemma sent_offset:
  assumes "length data < 2 ^ 32" and "i < length (sent_fragments mtu seq channel data)"
  shows "unat (frag_fragment_offset (sent_fragments mtu seq channel data ! i)) =
    length (concat (map frag_data (take i (sent_fragments mtu seq channel data))))"
proof -
  let ?fc = "first_capacity mtu channel" and ?sc = "next_capacity mtu"
  let ?fs = "sent_fragments mtu seq channel data"
  have "map frag_data (take i ?fs) = map (chunk_of ?fc ?sc data) [0..<i]"
    using assms(2) by (simp add: sent_fragments_def Let_def sent_fragment_def take_map take_upt comp_def)
  then have "length (concat (map frag_data (take i ?fs))) = min (frag_start ?fc ?sc i) (length data)"
    by (simp add: concat_chunks)
  moreover have "min (frag_start ?fc ?sc i) (length data) < 2 ^ 32" using assms(1) by simp
  ultimately show ?thesis
    using assms(2) by (simp add: sent_fragments_def Let_def sent_fragment_def)
qed

lemma Suc_pred_div: "(n - Suc 0) div n = 0"
  by (cases n) simp_all

lemmas capacity_defs = first_capacity_def next_capacity_def frag_count_def FRAGMENT_HEADER_SIZE_def

section \<open>Properties\<close>

text \<open>Claim C8. \<open>send\<close> never panics. Whatever the socket does, the sequence counter advances by one,
  what leaves is a prefix of the datagrams of the message under the old counter value, and the
  call answers that value exactly when the whole list has left; a failing call answers the error,
  and an MTU too small for a first fragment sends nothing.\<close>

theorem send_outcomes:
  "let seq = sequence_counter t; mtu = fragment_mtu t; ps = datagrams mtu seq channel data in
   \<exists>net' result. send os t net channel data = Ret (t\<lparr>sequence_counter := seq + 1\<rparr>, net', result) \<and>
     (if \<not> is_short mtu channel data \<and> first_capacity mtu channel = 0
      then net' = net \<and> result = Inl MtuTooSmall
      else \<exists>m \<le> length ps. wire net' = wire net @ map (Pair (multicast_addr t)) (take m ps) \<and>
        (if m = length ps then result = Inr seq else \<exists>e. result = Inl e))"
proof -
  let ?seq = "sequence_counter t" and ?mtu = "fragment_mtu t"
  let ?ps = "datagrams ?mtu ?seq channel data"
  obtain net' res where all: "send_all os (multicast_addr t) net ?ps = (net', res)"
    by (cases "send_all os (multicast_addr t) net ?ps")
  with send_all_prefix [of ?ps os "multicast_addr t" net]
  have "\<exists>m \<le> length ?ps. wire net' = wire net @ map (Pair (multicast_addr t)) (take m ?ps) \<and>
      (res = Inr () \<longleftrightarrow> m = length ?ps)" by simp
  with all show ?thesis by (cases res) (auto simp: send_eq Let_def)
qed

text \<open>Claim C10. \<open>send_fragmented\<close>, of a message that fits the header fields (\<open>fragmentable\<close>: the MTU leaves
  room for a first byte, the length fits 32 bits, fewer than 65536 fragments are needed), never
  panics. There are fragments that carry the bytes of the message in order, each starting
  where the earlier ones end, numbered from 0 with their total count, the message's number and its
  length, the first with the channel and the others without, each at most the MTU when encoded; and,
  whatever the socket does, the call sends them in this order until the first attempt that fails: it
  answers that error, or \<open>Ok\<close> when all of them have left.\<close>

theorem fragments_carry_message:
  assumes "fragmentable (fragment_mtu t) channel data"
  shows "\<exists>fs m net' result. send_fragmented os t net seq channel data = Ret (net', result) \<and>
    concat (map frag_data fs) = data \<and> length fs < 65536 \<and>
    (\<forall>i < length fs. frag_sequence_number (fs ! i) = seq \<and> unat (frag_payload_size (fs ! i)) = length data \<and>
       unat (frag_fragment_number (fs ! i)) = i \<and> unat (frag_n_fragments (fs ! i)) = length fs \<and>
       unat (frag_fragment_offset (fs ! i)) = length (concat (map frag_data (take i fs))) \<and>
       length (encode_packet (Frag (fs ! i))) \<le> fragment_mtu t) \<and>
    map frag_channel fs = Some channel # replicate (length fs - 1) None \<and>
    m \<le> length fs \<and>
    wire net' = wire net @ map (\<lambda>f. (multicast_addr t, encode_packet (Frag f))) (take m fs) \<and>
    (\<forall>j < m. os (attempts net + j) (encode_packet (Frag (fs ! j))) = None) \<and>
    (if m = length fs then result = Inr ()
     else \<exists>e. os (attempts net + m) (encode_packet (Frag (fs ! m))) = Some e \<and> result = Inl (OsError e))"
proof -
  let ?mtu = "fragment_mtu t"
  let ?fs = "sent_fragments ?mtu seq channel data" and ?ps = "sent_datagrams ?mtu seq channel data"
  let ?fc = "first_capacity ?mtu channel" and ?sc = "next_capacity ?mtu"
  obtain net' result where all: "send_all os (multicast_addr t) net ?ps = (net', result)" by fastforce
  then have send: "send_fragmented os t net seq channel data = Ret (net', result)"
    using assms by (simp add: send_fragmented_eq fragmentable_def sent_datagrams_def)
  obtain m where m: "m \<le> length ?fs" "net' = net\<lparr>attempts := attempts net + min (Suc m) (length ?fs),
      wire := wire net @ map (Pair (multicast_addr t)) (take m ?ps)\<rparr>"
    "\<forall>j < m. os (attempts net + j) (?ps ! j) = None"
    "if m = length ?fs then result = Inr ()
     else \<exists>e. os (attempts net + m) (?ps ! m) = Some e \<and> result = Inl (OsError e)"
    using send_all_stops [of ?ps os "multicast_addr t" net]
    unfolding all fst_conv snd_conv length_sent_datagrams_sent by blast
  have ps: "?ps ! j = encode_packet (Frag (?fs ! j))" if "j < length ?fs" for j
    using that by (simp add: sent_datagrams_def)
  have "map (Pair (multicast_addr t)) (take m ?ps) =
      map (\<lambda>f. (multicast_addr t, encode_packet (Frag f))) (take m ?fs)"
    by (simp add: sent_datagrams_def take_map comp_def del: encode_packet.simps)
  moreover have "\<forall>j < m. os (attempts net + j) (encode_packet (Frag (?fs ! j))) = None"
    using m(1,3) ps by (metis order.strict_trans2)
  moreover have "if m = length ?fs then result = Inr ()
      else \<exists>e. os (attempts net + m) (encode_packet (Frag (?fs ! m))) = Some e \<and> result = Inl (OsError e)"
    using m(1,4) ps [of m] by (auto simp del: encode_packet.simps split: if_splits)
  moreover have len: "length ?fs < 65536" "length data < 2 ^ 32" "0 < ?sc"
    "length data - ?fc + (?sc - 1) < 2 ^ 64" "length ?fs = frag_count ?fc ?sc (length data)"
    using assms by (auto simp: fragmentable_def length_sent_fragments next_capacity_def first_capacity_def)
  moreover have "concat (map frag_data ?fs) = data" using len(3-5) by (simp add: sent_bytes frag_start_full)
  moreover have at: "frag_at seq channel data (length ?fs) i (?fs ! i)" if "i < length ?fs" for i
    using fragmentation_sent [OF assms, of seq] that by (simp add: fragmentation_def)
  moreover have "map frag_channel ?fs = Some channel # replicate (length ?fs - 1) None"
    using fragmentation_sent [OF assms, of seq] at
    by (intro nth_equalityI) (auto simp: fragmentation_def frag_at_def nth_Cons')
  moreover have "frag_sequence_number (?fs ! i) = seq \<and>
      unat (frag_payload_size (?fs ! i)) = length data \<and>
      unat (frag_fragment_number (?fs ! i)) = i \<and> unat (frag_n_fragments (?fs ! i)) = length ?fs \<and>
      unat (frag_fragment_offset (?fs ! i)) = length (concat (map frag_data (take i ?fs))) \<and>
      length (encode_packet (Frag (?fs ! i))) \<le> ?mtu" if "i < length ?fs" for i
    using at [OF that] sent_offset [OF len(2) that] length_sent_datagram [OF assms nth_mem [OF that]]
    by (simp add: frag_at_def del: encode_packet.simps)
  ultimately show ?thesis using send m(1,2)
    by (intro exI [where x = ?fs] exI [where x = m] exI [where x = net'] exI [where x = result])
      (simp del: encode_packet.simps)
qed

definition example_transport :: LcmTransport where
  "example_transport = \<lparr>multicast_addr = SocketAddrV4 (Ipv4Addr 239 255 76 67) 7667,
     fragment_mtu = 33, sequence_counter = 7\<rparr>"

definition example_data :: bytes where
  "example_data = map word_of_nat [0..<24]"

lemma length_example_data: "length example_data = 24"
  by (simp add: example_data_def)

lemma example_fragmentable: "fragmentable 33 ''C'' example_data"
  by (simp add: fragmentable_def capacity_defs length_example_data)

lemma length_example_fragments_sent: "length (sent_fragments 33 7 ''C'' example_data) = 2"
  by (simp add: length_sent_fragments capacity_defs length_example_data)

text \<open>24 bytes in two fragments, the second of which the socket refuses.\<close>

theorem fragments_carry_message_witness:
  "\<exists>fs net'. send_fragmented (\<lambda>k p. if k = 1 then Some (5 :: nat) else None) example_transport
      \<lparr>attempts = 0, wire = []\<rparr> 7 ''C'' example_data = Ret (net', Inl (OsError 5)) \<and>
    concat (map frag_data fs) = example_data \<and> 1 < length fs \<and> frag_channel (hd fs) = Some ''C'' \<and>
    list_all (\<lambda>f. frag_channel f = None) (tl fs) \<and>
    wire net' = [(multicast_addr example_transport, encode_packet (Frag (hd fs)))]"
proof -
  define os where "os = (\<lambda>(k :: nat) (p :: bytes). if k = 1 then Some (5 :: nat) else None)"
  let ?net = "\<lparr>attempts = 0, wire = []\<rparr> :: Net"
  have mtu: "fragment_mtu example_transport = 33" by (simp add: example_transport_def)
  obtain fs m net' result where fs:
    "send_fragmented os example_transport ?net 7 ''C'' example_data = Ret (net', result)"
    "concat (map frag_data fs) = example_data"
    "\<forall>i < length fs. length (encode_packet (Frag (fs ! i))) \<le> 33"
    "map frag_channel fs = Some ''C'' # replicate (length fs - 1) None"
    "m \<le> length fs"
    "wire net' = wire ?net @ map (\<lambda>f. (multicast_addr example_transport, encode_packet (Frag f))) (take m fs)"
    "\<forall>j < m. os (attempts ?net + j) (encode_packet (Frag (fs ! j))) = None"
    "if m = length fs then result = Inr ()
     else \<exists>e. os (attempts ?net + m) (encode_packet (Frag (fs ! m))) = Some e \<and> result = Inl (OsError e)"
    using fragments_carry_message [of example_transport "''C''" example_data os ?net 7, unfolded mtu,
        OF example_fragmentable] by (elim exE conjE) (rule that; (assumption | blast))
  obtain f fs' where f: "fs = f # fs'" "frag_channel f = Some ''C''"
    using fs(4) by (cases fs) auto
  with fs(4) have rest: "map frag_channel fs' = replicate (length fs') None" by simp
  have two: "fs' \<noteq> []"
  proof
    assume "fs' = []"
    with fs(2,3) f have "length (frag_data f) = 24" "length (encode_packet (Frag f)) \<le> 33"
      by (simp_all add: length_example_data del: encode_packet.simps)
    with f(2) show False by (simp add: length_encode_fragment channel_field_def FRAGMENT_HEADER_SIZE_def)
  qed
  have "\<not> 1 < m"
  proof
    assume "1 < m"
    with fs(7) have "os (attempts ?net + 1) (encode_packet (Frag (fs ! 1))) = None" by blast
    then show False by (simp add: os_def)
  qed
  with fs(5) two f(1) have "m \<noteq> length fs" by (cases fs') auto
  with fs(8) have "m = 1" "result = Inl (OsError 5)" by (auto simp: os_def split: if_splits)
  note m = this
  have "list_all (\<lambda>f. frag_channel f = None) fs'"
    using rest unfolding list_all_iff by (metis in_set_replicate list.set_map imageI)
  with m fs f two show ?thesis
    unfolding os_def by (intro exI [where x = fs] exI [where x = net']) (simp del: encode_packet.simps)
qed

text \<open>Claim C34. A message that needs 65536 fragments or more is sent without an error although it is
  incomplete: the fragment count is cut to 16 bits, so only a proper prefix of the message leaves
  (nothing at all when the count is a multiple of 65536), and \<open>send\<close> still answers \<open>Ok\<close>.\<close>

theorem oversized_send_loses_data:
  assumes "\<not> is_short (fragment_mtu t) channel data"
    and "0 < first_capacity (fragment_mtu t) channel"
    and "65536 \<le> frag_count (first_capacity (fragment_mtu t) channel)
                            (next_capacity (fragment_mtu t)) (length data)"
    and "\<And>k p. os k p = None"
  shows "\<exists>fs net'. send os t net channel data =
      Ret (t\<lparr>sequence_counter := sequence_counter t + 1\<rparr>, net', Inr (sequence_counter t)) \<and>
    wire net' = wire net @ map (\<lambda>f. (multicast_addr t, encode_packet (Frag f))) fs \<and>
    length fs = frag_count (first_capacity (fragment_mtu t) channel)
      (next_capacity (fragment_mtu t)) (length data) mod 65536 \<and>
    (\<exists>n < length data. concat (map frag_data fs) = take n data)"
proof -
  let ?mtu = "fragment_mtu t" and ?seq = "sequence_counter t"
  let ?fc = "first_capacity ?mtu channel" and ?sc = "next_capacity ?mtu"
  let ?fs = "sent_fragments ?mtu ?seq channel data"
  let ?ps = "datagrams ?mtu ?seq channel data"
  obtain net' where all: "send_all os (multicast_addr t) net ?ps = (net', Inr ())"
    using send_all_ok [of os "multicast_addr t" net ?ps] assms(4)
    by (metis surjective_pairing)
  with assms(1,2) have send: "send os t net channel data =
      Ret (t\<lparr>sequence_counter := ?seq + 1\<rparr>, net', Inr ?seq)"
    by (simp add: send_eq Let_def)
  have len: "length ?fs = frag_count ?fc ?sc (length data) mod 65536"
    by (rule length_sent_fragments)
  have "frag_start ?fc ?sc (length ?fs) < length data"
  proof (rule frag_start_short)
    show "?fc < length data"
    proof (rule ccontr)
      assume "\<not> ?fc < length data"
      then have "frag_count ?fc ?sc (length data) \<le> 1"
        by (simp add: frag_count_def Suc_pred_div)
      with assms(3) show False by simp
    qed
    show "0 < ?sc" using assms(2) by (auto simp: next_capacity_def first_capacity_def)
    have "frag_count ?fc ?sc (length data) mod 65536 < 65536" by simp
    with assms(3) show "length ?fs < frag_count ?fc ?sc (length data)" unfolding len by linarith
  qed (rule assms(2))
  moreover have "wire net' = wire net @ map (\<lambda>f. (multicast_addr t, encode_packet (Frag f))) ?fs"
    using send_all_returned [of os "multicast_addr t" net ?ps] all assms(1)
    by (simp add: datagrams_def sent_datagrams_def del: encode_packet.simps)
  ultimately show ?thesis
    using send len sent_bytes [of ?mtu ?seq channel data] by blast
qed

theorem oversized_send_loses_data_witness:
  "\<exists>net'. send (\<lambda>_ _. None :: nat option)
      \<lparr>multicast_addr = SocketAddrV4 (Ipv4Addr 239 255 76 67) 7667, fragment_mtu = 22, sequence_counter = 5\<rparr>
      \<lparr>attempts = 0, wire = []\<rparr> '''' (replicate 131071 0) =
    Ret (\<lparr>multicast_addr = SocketAddrV4 (Ipv4Addr 239 255 76 67) 7667, fragment_mtu = 22, sequence_counter = 6\<rparr>,
      net', Inr 5) \<and> wire net' = []"
  using oversized_send_loses_data [of "\<lparr>multicast_addr = SocketAddrV4 (Ipv4Addr 239 255 76 67) 7667,
      fragment_mtu = 22, sequence_counter = 5\<rparr>" "''''" "replicate 131071 0" "\<lambda>_ _. None :: nat option"
      "\<lparr>attempts = 0, wire = []\<rparr>"]
  by (auto simp: is_short_def capacity_defs)

end
