(* ===== verification/Delivery.thy ===== *)
theory Delivery
  imports Sending
begin

text \<open>
  The receive loop, and delivery from \<open>send\<close> to \<open>recv\<close>. One iteration of the loop is a step that
  never panics; \<open>recv\<close> is its iteration until a message or an error is returned. A message that
  \<open>send\<close> put on the wire, as one datagram or as fragments, is returned exactly once when its
  datagrams have arrived, in any order, with duplicates and with foreign traffic in between.
\<close>

section \<open>One iteration of the receive loop\<close>

definition recv_iter ::
  "FragmentReassembler \<Rightarrow> 'e incoming \<Rightarrow> (FragmentReassembler \<times> 'e recv_result option) may_panic" where
  "recv_iter r event =
     (case event of
        RecvError e \<Rightarrow> Ret (r, Some (RecvFailed (OsError e)))
      | Datagram pkt src now now' \<Rightarrow> do {
          packet \<leftarrow> parse_datagram (take MAX_DATAGRAM_SIZE pkt);
          (case packet of
             Some (Short msg) \<Rightarrow>
               Ret (r, Some (Received \<lparr>msg_channel = sm_channel msg,
                                       msg_sequence_number = sm_sequence_number msg,
                                       msg_data = sm_data msg\<rparr>))
           | Some (Frag frag) \<Rightarrow> do {
               (r, out) \<leftarrow> process r frag src now now';
               Ret (r, map_option Received out) }
           | None \<Rightarrow> Ret (r, None)) })"

text \<open>The recursion of \<open>recv\<close> is the iteration of this step.\<close>

lemma recv_run_until:
  "recv r events = do {
     (r, rest, out) \<leftarrow> run_until recv_iter r events;
     Ret (r, rest, case out of None \<Rightarrow> Waiting | Some res \<Rightarrow> res) }"
proof (induction events arbitrary: r)
  case (Cons ev events)
  show ?case
  proof (cases ev)
    case (Datagram pkt src now now')
    obtain packet where p: "parse_datagram (take MAX_DATAGRAM_SIZE pkt) = Ret packet"
      using parse_datagram_total by blast
    consider "packet = None" | m where "packet = Some (Short m)" | f where "packet = Some (Frag f)"
      by (metis Packet.exhaust option.exhaust)
    then show ?thesis
    proof cases
      case (3 f)
      show ?thesis
      proof (cases "process r f src now now'")
        case (Some res)
        obtain r' out where res: "res = (r', out)" by (cases res)
        with Some Datagram p 3 Cons.IH [of r'] show ?thesis
          by (cases out) (simp_all add: recv_iter_def)
      qed (simp add: Datagram p 3 recv_iter_def)
    qed (simp_all add: Datagram p recv_iter_def Cons.IH)
  qed (simp add: recv_iter_def)
qed simp

text \<open>What a received message is: its size is that of a datagram, or within the configured bound.\<close>

definition received_within :: "usize \<Rightarrow> 'e recv_result option \<Rightarrow> bool" where
  "received_within m out =
     (case out of
        Some (Received msg) \<Rightarrow> length (msg_data msg) \<le> max m MAX_DATAGRAM_SIZE
      | _ \<Rightarrow> True)"

interpretation receiver: polling_step recv_iter "reassembler_inv t m" "received_within m" for t m
proof
  fix r :: FragmentReassembler and event :: "'e incoming"
  assume inv: "reassembler_inv t m r"
  show "\<exists>r' out. recv_iter r event = Ret (r', out) \<and> reassembler_inv t m r' \<and> received_within m out"
  proof (cases event)
    case (Datagram pkt src now now')
    let ?buf = "take MAX_DATAGRAM_SIZE pkt"
    obtain packet where p: "parse_datagram ?buf = Ret packet" using parse_datagram_total by blast
    show ?thesis
    proof (cases packet)
      case None
      with p inv Datagram show ?thesis by (simp add: recv_iter_def received_within_def)
    next
      case (Some pk)
      show ?thesis
      proof (cases pk)
        case (Short msg)
        with p Some have "?buf = encode_packet (Short msg)" by (simp add: parse_datagram_iff)
        then have "length (sm_data msg) \<le> length ?buf" by (simp add: length_encode_short_message)
        then have "length (sm_data msg) \<le> MAX_DATAGRAM_SIZE" by simp
        with p inv Datagram Some Short show ?thesis
          by (simp add: recv_iter_def received_within_def le_max_iff_disj)
      next
        case (Frag f)
        obtain r' out where "process r f src now now' = Ret (r', out)"
          "reassembler_inv t m r'" "within_size m out"
          using reasm.step_ok [OF inv, of "(f, src, now, now')"] by (auto simp: process_arrival_def)
        with p Datagram Some Frag show ?thesis
          by (auto simp: recv_iter_def received_within_def within_size_def split: option.splits)
      qed
    qed
  qed (use inv in \<open>simp add: recv_iter_def received_within_def\<close>)
qed

section \<open>The arrivals of a list of events\<close>

definition arrival_of :: "'e incoming \<Rightarrow> arrival option" where
  "arrival_of event =
     (case event of
        RecvError e \<Rightarrow> None
      | Datagram pkt src now now' \<Rightarrow>
          (case parse_datagram (take MAX_DATAGRAM_SIZE pkt) of
             Some (Some (Frag f)) \<Rightarrow> Some (f, src, now, now')
           | _ \<Rightarrow> None))"

definition carries :: "FragmentKey \<Rightarrow> 'e incoming \<Rightarrow> bool" where
  "carries key event = (case arrival_of event of None \<Rightarrow> False | Some a \<Rightarrow> is_for key a)"

definition event_answers :: "FragmentKey \<Rightarrow> 'e incoming list \<Rightarrow> 'b list \<Rightarrow> 'b list" where
  "event_answers key events outs = map snd (filter (\<lambda>(ev, _). carries key ev) (zip events outs))"

lemma recv_iter_arrival:
  "arrival_of event = Some a \<Longrightarrow>
     recv_iter r event = do { (r, out) \<leftarrow> process_arrival r a; Ret (r, map_option Received out) }"
  by (auto simp: arrival_of_def recv_iter_def process_arrival_def
      split: incoming.splits option.splits Packet.splits)

lemma recv_iter_no_arrival:
  assumes "arrival_of event = None"
  shows "\<exists>out. recv_iter r event = Ret (r, out)"
proof (cases event)
  case (Datagram pkt src now now')
  obtain packet where p: "parse_datagram (take MAX_DATAGRAM_SIZE pkt) = Ret packet"
    using parse_datagram_total by blast
  with assms Datagram show ?thesis
    by (auto simp: arrival_of_def recv_iter_def split: option.splits Packet.splits)
qed (simp add: recv_iter_def)

lemma recv_iters_arrivals:
  assumes "run_steps process_arrival r (List.map_filter arrival_of events) = Ret (r', aouts)"
  shows "\<exists>outs. run_steps recv_iter r events = Ret (r', outs) \<and>
    event_answers key events outs =
      map (map_option Received) (answers_for key (List.map_filter arrival_of events) aouts)"
  using assms
proof (induction events arbitrary: r aouts)
  case Nil
  then show ?case by (simp add: event_answers_def answers_for_def)
next
  case (Cons ev events)
  show ?case
  proof (cases "arrival_of ev")
    case None
    then obtain out where "recv_iter r ev = Ret (r, out)" using recv_iter_no_arrival by blast
    moreover obtain outs where "run_steps recv_iter r events = Ret (r', outs)"
      "event_answers key events outs =
        map (map_option Received) (answers_for key (List.map_filter arrival_of events) aouts)"
      using Cons None by (auto simp:)
    ultimately show ?thesis
      using None by (intro exI [where x = "out # outs"])
        (simp add: event_answers_def carries_def)
  next
    case (Some a)
    with Cons.prems obtain r1 out aouts1 where 1: "process_arrival r a = Ret (r1, out)"
      "run_steps process_arrival r1 (List.map_filter arrival_of events) = Ret (r', aouts1)"
      "aouts = out # aouts1"
      by (auto simp: bind_eq_Some_conv split: prod.splits)
    with Cons.IH [OF 1(2)] recv_iter_arrival [OF Some, of r] Some show ?thesis
      by (auto simp: event_answers_def carries_def answers_for_def)
  qed
qed

section \<open>From send to recv\<close>

definition event_numbers :: "FragmentKey \<Rightarrow> 'e incoming list \<Rightarrow> nat list" where
  "event_numbers key events = numbers_for key (List.map_filter arrival_of events)"

text \<open>An event inside the window that starts at \<open>t0\<close>; whatever it brings for \<open>key\<close> is one of the
  datagrams \<open>pkts\<close>. Errors, other senders and unparsable datagrams are unrestricted.\<close>

definition event_ok :: "FragmentKey \<Rightarrow> bytes list \<Rightarrow> Instant \<Rightarrow> Duration \<Rightarrow> 'e incoming \<Rightarrow> bool" where
  "event_ok key pkts t0 window event =
     (case event of
        RecvError e \<Rightarrow> True
      | Datagram pkt src now now' \<Rightarrow>
          now \<le> t0 + window \<and> t0 \<le> now' \<and> (carries key event \<longrightarrow> pkt \<in> set pkts))"

lemma wf_sent_fragment:
  assumes "fragmentable mtu channel data" and "wf_channel channel"
    and "f \<in> set (sent_fragments mtu seq channel data)"
  shows "wf_packet (Frag f)"
proof -
  obtain i where "i < length (sent_fragments mtu seq channel data)"
    "f = sent_fragments mtu seq channel data ! i"
    using assms(3) by (auto simp: in_set_conv_nth)
  moreover from this have "frag_at seq channel data (length (sent_fragments mtu seq channel data)) i f"
    using fragmentation_sent [OF assms(1), of seq] by (simp add: fragmentation_def)
  ultimately show ?thesis
    using assms(2) by (cases i) (auto simp: frag_at_def unat_eq_0)
qed

lemma sent_datagram_parses:
  assumes "fragmentable mtu channel data" and "wf_channel channel" and "mtu \<le> MAX_DATAGRAM_SIZE"
    and "pkt \<in> set (sent_datagrams mtu seq channel data)"
  shows "\<exists>f \<in> set (sent_fragments mtu seq channel data).
    parse_datagram (take MAX_DATAGRAM_SIZE pkt) = Ret (Some (Frag f))"
proof -
  obtain f where f: "f \<in> set (sent_fragments mtu seq channel data)" "pkt = encode_packet (Frag f)"
    using assms(4) unfolding sent_datagrams_def by auto
  have "length pkt \<le> MAX_DATAGRAM_SIZE"
    using length_sent_datagram [OF assms(1) f(1)] assms(3) unfolding f(2) by (rule le_trans)
  then have "take MAX_DATAGRAM_SIZE pkt = encode_packet (Frag f)" using f(2) by simp
  moreover have "parse_datagram (encode_packet (Frag f)) = Ret (Some (Frag f))"
    using wf_sent_fragment [OF assms(1,2) f(1)] by (simp only: parse_datagram_iff simp_thms)
  ultimately show ?thesis using f(1) by metis
qed

lemma arrival_of_sent:
  assumes "fragmentable mtu channel data" and "wf_channel channel" and "mtu \<le> MAX_DATAGRAM_SIZE"
    and "i < length (sent_datagrams mtu seq channel data)"
  shows "arrival_of (Datagram (sent_datagrams mtu seq channel data ! i) src now now') =
    Some (sent_fragments mtu seq channel data ! i, src, now, now')"
proof -
  let ?f = "sent_fragments mtu seq channel data ! i"
  have i: "i < length (sent_fragments mtu seq channel data)"
    using assms(4) by (simp add: sent_datagrams_def)
  then have pkt: "sent_datagrams mtu seq channel data ! i = encode_packet (Frag ?f)"
    unfolding sent_datagrams_def by (rule nth_map)
  have "length (encode_packet (Frag ?f)) \<le> MAX_DATAGRAM_SIZE"
    using length_sent_datagram [OF assms(1) nth_mem [OF i]] assms(3) by (rule le_trans)
  moreover have "parse_datagram (encode_packet (Frag ?f)) = Ret (Some (Frag ?f))"
    using wf_sent_fragment [OF assms(1,2) nth_mem [OF i]] by (simp only: parse_datagram_iff simp_thms)
  ultimately show ?thesis by (simp add: arrival_of_def pkt del: encode_packet.simps)
qed

lemma delivery_refines:
  assumes frag: "fragmentable mtu channel data" "wf_channel channel" "mtu \<le> MAX_DATAGRAM_SIZE"
    and r: "reassembler_ok r" "pending r (src, seq) = None" "length data \<le> max_message_size r"
    and events: "\<forall>ev \<in> set events.
      event_ok (src, seq) (sent_datagrams mtu seq channel data) t0 (timeout r) ev"
  shows "\<exists>r' outs. run_steps recv_iter r events = Ret (r', outs) \<and>
    event_answers (src, seq) events outs =
      map (\<lambda>b. map_option Received (delivered seq channel data b))
        (seen_run (length (sent_datagrams mtu seq channel data)) {} (event_numbers (src, seq) events))"
proof -
  let ?fs = "sent_fragments mtu seq channel data"
  have ok: "\<forall>a \<in> set (List.map_filter arrival_of events). arrival_ok (src, seq) ?fs t0 (timeout r) a"
  proof
    fix a
    assume "a \<in> set (List.map_filter arrival_of events)"
    then obtain ev where ev: "ev \<in> set events" "arrival_of ev = Some a"
      by (auto simp: List.map_filter_def)
    from ev(2) obtain pkt src' now now' f where d: "ev = Datagram pkt src' now now'"
      "parse_datagram (take MAX_DATAGRAM_SIZE pkt) = Ret (Some (Frag f))" "a = (f, src', now, now')"
      by (auto simp: arrival_of_def split: incoming.splits option.splits Packet.splits)
    have good: "event_ok (src, seq) (sent_datagrams mtu seq channel data) t0 (timeout r) ev"
      using events ev(1) by blast
    have "f \<in> set ?fs" if "key_of f src' = (src, seq)"
    proof -
      have "carries (src, seq) ev" using that ev(2) d(3) by (simp add: carries_def is_for_def)
      with good d(1) have "pkt \<in> set (sent_datagrams mtu seq channel data)"
        by (simp add: event_ok_def)
      from sent_datagram_parses [OF frag this] d(2) show ?thesis by auto
    qed
    with good d(1,3) show "arrival_ok (src, seq) ?fs t0 (timeout r) a"
      by (simp add: arrival_ok_def event_ok_def)
  qed
  have frags: "fragmentation seq channel data ?fs" using frag(1) by (rule fragmentation_sent)
  obtain r' aouts where 1: "run_steps process_arrival r (List.map_filter arrival_of events) = Ret (r', aouts)"
    "answers_for (src, seq) (List.map_filter arrival_of events) aouts =
       map (delivered seq channel data)
         (seen_run (length ?fs) {} (numbers_for (src, seq) (List.map_filter arrival_of events)))"
    using process_arrivals_refine [OF r(1) frags sim_initial [OF r(2) frags] r(3) ok] by blast
  from recv_iters_arrivals [OF 1(1), of "(src, seq)"] 1(2) show ?thesis
    by (auto simp: event_numbers_def sent_datagrams_def comp_def)
qed

lemma run_until_waiting: "run_until recv_iter r events = Ret (r', rest, out) \<Longrightarrow> out \<noteq> Some Waiting"
proof (induction events arbitrary: r)
  case (Cons ev events)
  have "recv_iter r ev \<noteq> Ret (r1, Some Waiting)" for r1
    by (auto simp: recv_iter_def bind_eq_Some_conv split: incoming.splits option.splits Packet.splits)
  with Cons show ?case
    by (auto simp: bind_eq_Some_conv split: prod.splits option.splits)
qed simp

lemma recv_outcome:
  assumes "reassembler_inv t m r"
  shows "\<exists>r' used rest out. recv r events = Ret (r', rest, out) \<and> events = used @ rest \<and>
    reassembler_inv t m r' \<and> (out = Waiting \<longrightarrow> rest = []) \<and> received_within m (Some out)"
proof -
  obtain r' rest out where poll: "run_until recv_iter r events = Ret (r', rest, out)"
    "reassembler_inv t m r'" "out = None \<longrightarrow> rest = []"
    "out \<noteq> None \<longrightarrow> received_within m out" "\<exists>used. events = used @ rest"
    using receiver.poll_ok [OF assms, of events] by blast
  have "out \<noteq> Some Waiting"
    using run_until_waiting [OF poll(1)] .
  with poll show ?thesis
    by (cases out) (auto simp: recv_run_until received_within_def)
qed

text \<open>A message in one datagram is received at once, whatever is pending.\<close>

lemma short_received:
  assumes "is_short mtu channel data" and "mtu \<le> MAX_DATAGRAM_SIZE" and "wf_channel channel"
  shows "recv r (Datagram (encode_short_message buf seq channel data) src now now' # rest) = Ret (r, rest,
    Received \<lparr>msg_channel = channel, msg_sequence_number = seq, msg_data = data\<rparr>)"
proof -
  have "length (encode_short_message buf seq channel data) \<le> MAX_DATAGRAM_SIZE"
    using assms(1,2) by (simp add: length_encode_short_message is_short_def)
  with short_message_roundtrip [OF assms(3)] show ?thesis by simp
qed

section \<open>Properties\<close>

text \<open>Claim C11. The receive loop of a transport never panics, whatever datagrams arrive, keeps the
  reassembler's invariant, waits only when every event is consumed, and every message it returns
  fits a datagram or the configured maximum size.\<close>

theorem recv_never_panics:
  assumes "reassembler_inv t m r"
  shows "\<exists>r' used rest out. recv r events = Ret (r', rest, out) \<and> events = used @ rest \<and>
    reassembler_inv t m r' \<and> (out = Waiting \<longrightarrow> rest = []) \<and>
    (case out of Received msg \<Rightarrow> length (msg_data msg) \<le> max m MAX_DATAGRAM_SIZE | _ \<Rightarrow> True)"
  using recv_outcome [OF assms, of events] by (simp add: received_within_def)

theorem recv_never_panics_witness:
  "\<exists>r' used rest out. recv (FragmentReassembler_new 10 100)
      [Datagram [1, 2, 3] example_sender 0 0, RecvError (7 :: nat)] = Ret (r', rest, out) \<and>
    [Datagram [1, 2, 3] example_sender 0 0, RecvError 7] = used @ rest \<and> reassembler_inv 10 100 r'"
  using recv_never_panics [OF reassembler_ok_new [of 10 100],
      of "[Datagram [1, 2, 3] example_sender 0 0, RecvError (7 :: nat)]"] by blast


definition example_datagrams :: "bytes list" where
  "example_datagrams = sent_datagrams 33 7 ''C'' example_data"

definition example_events :: "nat incoming list" where
  "example_events =
     [Datagram (example_datagrams ! 1) example_sender 5 5, RecvError 9,
      Datagram [1, 2, 3] example_sender 6 6, Datagram (example_datagrams ! 1) example_sender 6 6,
      Datagram (example_datagrams ! 0) example_sender 7 7]"

lemma length_example_datagrams: "length example_datagrams = 2"
  by (simp add: example_datagrams_def sent_datagrams_def length_example_fragments_sent)

lemma example_channel: "wf_channel ''C''"
  by (simp add: channel_eval)

lemma example_send:
  "send (\<lambda>_ _. None :: nat option) example_transport \<lparr>attempts = 0, wire = []\<rparr> ''C'' example_data =
     Ret (example_transport\<lparr>sequence_counter := 8\<rparr>,
       \<lparr>attempts = 2, wire = map (Pair (multicast_addr example_transport)) example_datagrams\<rparr>, Inr 7)"
proof -
  have "is_short 33 ''C'' example_data = False" "first_capacity 33 ''C'' \<noteq> 0"
    by (simp_all add: is_short_def first_capacity_def FRAGMENT_HEADER_SIZE_def length_example_data)
  then show ?thesis
    using length_example_datagrams
    by (simp add: send_eq example_transport_def datagrams_def send_all_no_failure
        flip: example_datagrams_def)
qed

lemma example_arrivals_of:
  assumes "i < 2"
  shows "arrival_of (Datagram (example_datagrams ! i) example_sender now now') =
      Some (sent_fragments 33 7 ''C'' example_data ! i, example_sender, now, now')"
    and "frag_sequence_number (sent_fragments 33 7 ''C'' example_data ! i) = 7"
    and "unat (frag_fragment_number (sent_fragments 33 7 ''C'' example_data ! i)) = i"
proof -
  note len = length_example_fragments_sent
  with assms show "arrival_of (Datagram (example_datagrams ! i) example_sender now now') =
      Some (sent_fragments 33 7 ''C'' example_data ! i, example_sender, now, now')"
    unfolding example_datagrams_def
    by (intro arrival_of_sent) (simp_all add: example_fragmentable example_channel MAX_DATAGRAM_SIZE_def
        sent_datagrams_def)
  show "frag_sequence_number (sent_fragments 33 7 ''C'' example_data ! i) = 7"
    and "unat (frag_fragment_number (sent_fragments 33 7 ''C'' example_data ! i)) = i"
    using fragmentation_sent [OF example_fragmentable, of 7] assms len
    by (simp_all add: fragmentation_def frag_at_def)
qed


text \<open>End to end, for a message that fits one datagram: \<open>send\<close> puts one datagram on the
  wire, and \<open>recv\<close> answers it at once with the channel, the bytes and the sequence number.\<close>

lemma short_message_delivered:
  assumes sent: "send os t net channel data = Ret (t', net', Inr seq)"
    and short: "is_short (fragment_mtu t) channel data" "fragment_mtu t \<le> MAX_DATAGRAM_SIZE"
      "wf_channel channel"
  shows "\<exists>pkt. wire net' = wire net @ [(multicast_addr t, pkt)] \<and>
    recv r (Datagram pkt src now now' # events) = Ret (r, events,
      Received \<lparr>msg_channel = channel, msg_sequence_number = seq, msg_data = data\<rparr>)"
  using send_wire(3) [OF sent] short_received [OF short, of r "[]" seq src now now' events] short(1)
  by (auto simp: datagrams_def simp del: recv.simps)

lemma short_message_delivered_example:
  "\<exists>net' pkt. send (\<lambda>_ _. None :: nat option) example_transport \<lparr>attempts = 0, wire = []\<rparr> ''C'' [1] =
      Ret (example_transport\<lparr>sequence_counter := 8\<rparr>, net', Inr 7) \<and>
    wire net' = [(multicast_addr example_transport, pkt)] \<and>
    recv example_reassembler [Datagram pkt example_sender 3 3] = Ret (example_reassembler,
      [] :: nat incoming list, Received \<lparr>msg_channel = ''C'', msg_sequence_number = 7, msg_data = [1]\<rparr>)"
proof -
  have short: "is_short (fragment_mtu example_transport) ''C'' [1]"
    "fragment_mtu example_transport \<le> MAX_DATAGRAM_SIZE"
    by (simp_all add: example_transport_def is_short_def MAX_DATAGRAM_SIZE_def)
  then obtain net' where sent: "send (\<lambda>_ _. None :: nat option) example_transport \<lparr>attempts = 0, wire = []\<rparr>
      ''C'' [1] = Ret (example_transport\<lparr>sequence_counter := 8\<rparr>, net', Inr 7)"
    by (simp add: send_eq datagrams_def send_to_def) (simp add: example_transport_def)
  from short_message_delivered [OF this short example_channel, of example_reassembler example_sender
      3 3 "[] :: nat incoming list"]
  show ?thesis unfolding sent by (simp del: recv.simps)
qed

end
