(* ===== verification/Key_Mapping.thy ===== *)
theory Key_Mapping
  imports Interfaces Rust_Str
begin

text \<open>
  The mapping between LCM channels and Zenoh keys, \<open>zenoh-plugin-lcm/src/mapping.rs\<close>.
  A Zenoh \<open>KeyExpr\<close> is the string it was made from: \<open>KeyExpr::try_from\<close> validates its argument
  and does not change it. Which strings are valid key expressions is decided by the zenoh crate,
  so the test is the parameter \<open>valid_ke\<close>.
\<close>

type_synonym KeyExpr = string

datatype MappingError =
    ReservedCharacters string
  | EmptyChannel
  | InvalidKeyExpr string
  | EmptyChannelAfterPrefix string string
  | PrefixMismatch string string

definition lcm_channel_to_key_expr ::
  "(string \<Rightarrow> bool) \<Rightarrow> string \<Rightarrow> string \<Rightarrow> MappingError + KeyExpr" where
  "lcm_channel_to_key_expr valid_ke channel prefix =
     (if contains CHR ''*'' channel \<or> contains CHR ''#'' channel \<or> contains CHR ''$'' channel
      then Inl (ReservedCharacters channel)
      else if channel = [] then Inl EmptyChannel
      else
        let full = prefix @ ''/'' @ channel
        in if valid_ke full then Inr full else Inl (InvalidKeyExpr full))"

definition key_expr_to_lcm_channel :: "KeyExpr \<Rightarrow> string \<Rightarrow> MappingError + string" where
  "key_expr_to_lcm_channel key_expr prefix =
     (let key_str = key_expr;
          expected_prefix = prefix @ ''/''
      in case strip_prefix expected_prefix key_str of
           Some channel \<Rightarrow>
             if channel = [] then Inl (EmptyChannelAfterPrefix key_str prefix) else Inr channel
         | None \<Rightarrow> Inl (PrefixMismatch key_str expected_prefix))"

section \<open>Lemmas\<close>

definition plain_channel :: "string \<Rightarrow> bool" where
  "plain_channel s \<longleftrightarrow> s \<noteq> [] \<and> CHR ''*'' \<notin> set s \<and> CHR ''#'' \<notin> set s \<and> CHR ''$'' \<notin> set s"

lemma to_key_iff:
  "lcm_channel_to_key_expr valid_ke channel prefix = Inr key \<longleftrightarrow>
     plain_channel channel \<and> key = prefix @ ''/'' @ channel \<and> valid_ke key"
  by (auto simp: lcm_channel_to_key_expr_def plain_channel_def contains_def Let_def)

lemma strip_prefix_slash [simp]: "strip_prefix (prefix @ ''/'') (prefix @ CHR ''/'' # t) = Some t"
  by (simp add: strip_prefix_Some_iff)

lemma from_key_iff:
  "key_expr_to_lcm_channel key prefix = Inr channel \<longleftrightarrow> channel \<noteq> [] \<and> key = prefix @ ''/'' @ channel"
  by (auto simp: key_expr_to_lcm_channel_def Let_def strip_prefix_Some_iff split: option.splits)

definition ok_of :: "'e + 'a \<Rightarrow> 'a option" where
  "ok_of res = (case res of Inl e \<Rightarrow> None | Inr a \<Rightarrow> Some a)"

lemma ok_of_Some_iff [simp]: "ok_of res = Some a \<longleftrightarrow> res = Inr a"
  by (cases res) (auto simp: ok_of_def)

interpretation key_codec: codec
  "\<lambda>key. ok_of (key_expr_to_lcm_channel key prefix)"
  "\<lambda>channel. prefix @ ''/'' @ channel"
  "\<lambda>channel. channel \<noteq> []"
  for prefix
  by unfold_locales (simp add: from_key_iff)

section \<open>Properties\<close>

text \<open>Claim C25. The two mappings are inverse to each other: a channel maps to a key exactly when that
  key maps back to the channel, the channel is not empty and has none of the reserved characters,
  and Zenoh accepts the key. So no two channels share a key.\<close>

theorem channel_key_inverse:
  "lcm_channel_to_key_expr valid_ke channel prefix = Inr key \<longleftrightarrow>
     key_expr_to_lcm_channel key prefix = Inr channel \<and> valid_ke key \<and>
     set channel \<inter> {CHR ''*'', CHR ''#'', CHR ''$''} = {}"
  by (auto simp: to_key_iff from_key_iff plain_channel_def)

end
