(* ===== verification/Plugin_Config.thy ===== *)
theory Plugin_Config
  imports Prelude Lcm_Types
begin

text \<open>
  The plugin's configuration, \<open>zenoh-plugin-lcm/src/config.rs\<close>: the settings with their
  defaults, and the channel filter \<open>is_allowed\<close>. A compiled \<open>Regex\<close> is an opaque value of type
  \<open>'re\<close>; \<open>is_match\<close> of the regex crate is a parameter.
\<close>

definition DEFAULT_LCM_URL :: string where "DEFAULT_LCM_URL = ''udpm://239.255.76.67:7667?ttl=0''"
definition DEFAULT_KEY_PREFIX :: string where "DEFAULT_KEY_PREFIX = ''lcm''"
definition CONFIG_MAX_MESSAGE_SIZE :: usize where "CONFIG_MAX_MESSAGE_SIZE = 4 * 1024 * 1024"
definition DEFAULT_WORK_THREAD_NUM :: usize where "DEFAULT_WORK_THREAD_NUM = 2"
definition DEFAULT_MAX_BLOCK_THREAD_NUM :: usize where "DEFAULT_MAX_BLOCK_THREAD_NUM = 50"

record 're Config =
  lcm_url :: string
  key_prefix :: string
  allow :: "'re option"
  deny :: "'re option"
  network_interface :: "string option"
  cfg_max_message_size :: usize
  work_thread_num :: usize
  max_block_thread_num :: usize
  required :: "bool option"
  path :: "string list option"

text \<open>What \<open>serde\<close> builds from an empty object: every field has a default.\<close>

definition Config_default :: "'re Config" where
  "Config_default =
     \<lparr>lcm_url = DEFAULT_LCM_URL, key_prefix = DEFAULT_KEY_PREFIX, allow = None, deny = None,
      network_interface = None, cfg_max_message_size = CONFIG_MAX_MESSAGE_SIZE,
      work_thread_num = DEFAULT_WORK_THREAD_NUM,
      max_block_thread_num = DEFAULT_MAX_BLOCK_THREAD_NUM, required = None, path = None\<rparr>"

definition is_allowed :: "('re \<Rightarrow> string \<Rightarrow> bool) \<Rightarrow> string \<Rightarrow> 're Config \<Rightarrow> bool" where
  "is_allowed is_match channel config =
     (case (allow config, deny config) of
        (Some a, None) \<Rightarrow> is_match a channel
      | (None, Some d) \<Rightarrow> \<not> is_match d channel
      | (Some a, Some d) \<Rightarrow> is_match a channel \<and> \<not> is_match d channel
      | (None, None) \<Rightarrow> True)"

lemma is_allowed_iff:
  "is_allowed is_match channel config \<longleftrightarrow>
     (\<forall>a. allow config = Some a \<longrightarrow> is_match a channel) \<and>
     (\<forall>d. deny config = Some d \<longrightarrow> \<not> is_match d channel)"
  by (auto simp: is_allowed_def split: option.splits)

end
