(* ===== verification/Zenoh_To_Lcm.thy ===== *)
theory Zenoh_To_Lcm
  imports Sending Key_Mapping Plugin_Config
begin

text \<open>
  The Zenoh to LCM task, \<open>zenoh-plugin-lcm/src/zenoh_to_lcm.rs\<close>: the pruning of the sent
  sequence numbers and the task's loop. The subscriber's samples are its input; the shared set
  of sequence numbers is state. An iteration has two parts with an await point between them:
  choosing and sending (\<open>z2l_select\<close>, \<open>send\<close>), and recording (\<open>record_sequence\<close>).
\<close>

section \<open>The sent sequence numbers\<close>

type_synonym sent_sequences = "u32 set"

definition prune_sent_sequences :: "sent_sequences \<Rightarrow> u32 \<Rightarrow> sent_sequences" where
  "prune_sent_sequences seqs latest_seq =
     (if card seqs > 10000 then
        let cutoff = u32_saturating_sub latest_seq 5000
        in Set.filter (\<lambda>s. cutoff \<le> s) seqs
      else seqs)"

text \<open>Under the write lock, after a successful send: insert, then prune.\<close>

definition record_sequence :: "sent_sequences \<Rightarrow> u32 \<Rightarrow> sent_sequences" where
  "record_sequence seqs seq = prune_sent_sequences (insert seq seqs) seq"

section \<open>The task\<close>

datatype 'z sample_event = Sample KeyExpr bytes | SubscriberError 'z

text \<open>The key expression the task subscribes to.\<close>

definition sub_expr :: "'re Config \<Rightarrow> KeyExpr" where
  "sub_expr config = key_prefix config @ ''/'' @ ''**''"

datatype 'e z2l_outcome =
    NoChannel MappingError
  | ChannelNotAllowed string
  | Sent u32
  | SendFailed "'e io_error"

text \<open>Channel extraction and filtering: the channel to send on, or why the sample is skipped.\<close>

definition z2l_select ::
  "('re \<Rightarrow> string \<Rightarrow> bool) \<Rightarrow> 're Config \<Rightarrow> KeyExpr \<Rightarrow> 'e z2l_outcome + string" where
  "z2l_select is_match config ke =
     (case key_expr_to_lcm_channel ke (key_prefix config) of
        Inl e \<Rightarrow> Inl (NoChannel e)
      | Inr channel \<Rightarrow>
          if \<not> is_allowed is_match channel config then Inl (ChannelNotAllowed channel)
          else Inr channel)"

record z2l_state =
  z_transport :: LcmTransport
  z_net :: Net
  z_sent :: sent_sequences

definition z2l_iter ::
  "('re \<Rightarrow> string \<Rightarrow> bool) \<Rightarrow> (nat \<Rightarrow> bytes \<Rightarrow> 'e option) \<Rightarrow> 're Config \<Rightarrow> z2l_state
     \<Rightarrow> KeyExpr \<times> bytes \<Rightarrow> (z2l_state \<times> 'e z2l_outcome) may_panic" where
  "z2l_iter is_match os config st = (\<lambda>(ke, payload).
     case z2l_select is_match config ke of
       Inl skipped \<Rightarrow> Ret (st, skipped)
     | Inr channel \<Rightarrow> do {
         (t, net, result) \<leftarrow> send os (z_transport st) (z_net st) channel payload;
         let st = st\<lparr>z_transport := t, z_net := net\<rparr>;
         (case result of
            Inr seq \<Rightarrow> Ret (st\<lparr>z_sent := record_sequence (z_sent st) seq\<rparr>, Sent seq)
          | Inl e \<Rightarrow> Ret (st, SendFailed e)) })"

text \<open>The loop of \<open>run\<close>: it ends when the subscriber fails, and otherwise waits for more samples.\<close>

fun zenoh_to_lcm_run ::
  "('re \<Rightarrow> string \<Rightarrow> bool) \<Rightarrow> (nat \<Rightarrow> bytes \<Rightarrow> 'e option) \<Rightarrow> 're Config \<Rightarrow> z2l_state
     \<Rightarrow> 'z sample_event list \<Rightarrow> (z2l_state \<times> 'e z2l_outcome list) may_panic" where
  "zenoh_to_lcm_run is_match os config st [] = Ret (st, [])"
| "zenoh_to_lcm_run is_match os config st (SubscriberError e # events) = Ret (st, [])"
| "zenoh_to_lcm_run is_match os config st (Sample ke payload # events) = do {
     (st, out) \<leftarrow> z2l_iter is_match os config st (ke, payload);
     (st, outs) \<leftarrow> zenoh_to_lcm_run is_match os config st events;
     Ret (st, out # outs) }"

text \<open>\<open>run\<close>: without a subscriber the task ends before its loop. \<open>declare_subscriber\<close> is Zenoh's, called
  with the origin \<open>Locality::Remote\<close>; it gives the error or none.\<close>

definition zenoh_to_lcm_task ::
  "(KeyExpr \<Rightarrow> 'd option) \<Rightarrow> ('re \<Rightarrow> string \<Rightarrow> bool) \<Rightarrow> (nat \<Rightarrow> bytes \<Rightarrow> 'e option) \<Rightarrow> 're Config \<Rightarrow> z2l_state
     \<Rightarrow> 'z sample_event list \<Rightarrow> (z2l_state \<times> 'e z2l_outcome list) may_panic" where
  "zenoh_to_lcm_task declare_subscriber is_match os config st events =
     (case declare_subscriber (sub_expr config) of
        Some e \<Rightarrow> Ret (st, [])
      | None \<Rightarrow> zenoh_to_lcm_run is_match os config st events)"

text \<open>The outcomes that took a sequence number.\<close>

fun took_number :: "'e z2l_outcome \<Rightarrow> bool" where
  "took_number (Sent seq) = True"
| "took_number (SendFailed e) = True"
| "took_number _ = False"

section \<open>Lemmas\<close>

lemma cutoff_le: "u32_saturating_sub n 5000 \<le> n"
  by (auto simp: u32_saturating_sub_def word_le_nat_alt unat_sub)

lemma prune_subset: "prune_sent_sequences seqs n \<subseteq> seqs"
  by (auto simp: prune_sent_sequences_def Let_def)

lemma prune_keeps:
  "s \<in> seqs \<Longrightarrow> u32_saturating_sub n 5000 \<le> s \<Longrightarrow> s \<in> prune_sent_sequences seqs n"
  by (simp add: prune_sent_sequences_def Let_def)

lemma record_subset: "record_sequence seqs n \<subseteq> insert n seqs"
  by (simp add: record_sequence_def prune_subset)

lemma record_latest: "n \<in> record_sequence seqs n"
  by (simp add: record_sequence_def prune_keeps cutoff_le)

lemma record_keeps:
  "s \<in> seqs \<Longrightarrow> unat n \<le> unat s + 5000 \<Longrightarrow> s \<in> record_sequence seqs n"
  unfolding record_sequence_def
  by (rule prune_keeps) (auto simp: u32_saturating_sub_def word_le_nat_alt unat_sub)

text \<open>Numbers up to the latest one: after a prune at most 5001 of them are left.\<close>

lemma prune_card:
  assumes "seqs \<subseteq> {..n}"
  shows "card (prune_sent_sequences seqs n) \<le> 10000"
proof (cases "card seqs > 10000")
  case True
  let ?c = "u32_saturating_sub n 5000"
  have sub: "prune_sent_sequences seqs n \<subseteq> {?c..n}"
    using assms True by (auto simp: prune_sent_sequences_def Let_def)
  have "unat ` {?c..n} \<subseteq> {unat n - 5000..unat n}"
    by (auto simp: u32_saturating_sub_def word_le_nat_alt unat_sub split: if_splits)
  from card_mono [OF finite_atLeastAtMost this] have "card (unat ` {?c..n}) \<le> 5001"
    by simp
  moreover have "inj_on unat {?c..n}" by (simp add: inj_on_def word_unat_eq_iff)
  ultimately have "card {?c..n} \<le> 5001" by (simp only: card_image)
  then show ?thesis using card_mono [OF _ sub] by simp
next
  case False
  then show ?thesis by (simp add: prune_sent_sequences_def)
qed

definition take_sequence :: "sent_sequences \<Rightarrow> u32 \<Rightarrow> sent_sequences \<times> bool" where
  "take_sequence seqs seq = (seqs - {seq}, seq \<in> seqs)"

interpretation sent: sequence_filter record_sequence take_sequence "\<lambda>seqs n. n \<in> seqs"
proof
  show "n \<in> record_sequence s n" for s n by (rule record_latest)
  show "m \<in> record_sequence s n \<Longrightarrow> m = n \<or> m \<in> s" for s n m
    using record_subset [of s n] by blast
qed (auto simp: take_sequence_def)

lemma z2l_iter_total:
  fixes os :: "nat \<Rightarrow> bytes \<Rightarrow> 'e option"
  shows "\<exists>st' out. z2l_iter is_match os config st sample = Ret (st', out) \<and>
    sequence_counter (z_transport st') =
      sequence_counter (z_transport st) + (if took_number out then 1 else 0) \<and>
    z_sent st' \<subseteq> z_sent st \<union> {n. Sent n = out} \<and>
    (\<exists>ps. wire (z_net st') = wire (z_net st) @ ps)"
proof -
  obtain ke payload where sample: "sample = (ke, payload)" by (cases sample)
  show ?thesis
  proof (cases "z2l_select is_match config ke :: 'e z2l_outcome + string")
    case (Inl skipped)
    then have "\<not> took_number skipped" by (auto simp: z2l_select_def split: sum.splits if_splits)
    with Inl show ?thesis by (simp add: sample z2l_iter_def)
  next
    case (Inr channel)
    obtain net' result where "send os (z_transport st) (z_net st) channel payload =
        Ret ((z_transport st)\<lparr>sequence_counter := sequence_counter (z_transport st) + 1\<rparr>, net', result)"
      "\<exists>ps. wire net' = wire (z_net st) @ ps"
      using send_extends_wire by blast
    with Inr record_subset show ?thesis
      by (cases result) (auto simp: sample z2l_iter_def Let_def)
  qed
qed

lemma z2l_failed:
  fixes os :: "nat \<Rightarrow> bytes \<Rightarrow> 'e option"
  assumes "z2l_iter is_match os config st sample = Ret (st', SendFailed e)"
  shows "sequence_counter (z_transport st') = sequence_counter (z_transport st) + 1"
    and "z_sent st' = z_sent st"
proof -
  obtain ke payload where sample: "sample = (ke, payload)" by (cases sample)
  from assms obtain channel where sel: "z2l_select is_match config ke = (Inr channel :: 'e z2l_outcome + string)"
    by (auto simp: sample z2l_iter_def z2l_select_def split: sum.splits if_splits)
  obtain net' result where "send os (z_transport st) (z_net st) channel payload =
      Ret ((z_transport st)\<lparr>sequence_counter := sequence_counter (z_transport st) + 1\<rparr>, net', result)"
    using send_extends_wire by blast
  with assms sel have "st' = st\<lparr>z_transport := (z_transport st)\<lparr>sequence_counter :=
      sequence_counter (z_transport st) + 1\<rparr>, z_net := net'\<rparr>"
    by (cases result) (simp_all add: sample z2l_iter_def Let_def)
  then show "sequence_counter (z_transport st') = sequence_counter (z_transport st) + 1"
    and "z_sent st' = z_sent st" by simp_all
qed

lemma z2l_skipped:
  fixes os :: "nat \<Rightarrow> bytes \<Rightarrow> 'e option"
  assumes "z2l_iter is_match os config st sample = Ret (st', out)" and "\<not> took_number out"
  shows "st' = st"
proof -
  obtain ke payload where sample: "sample = (ke, payload)" by (cases sample)
  show ?thesis
  proof (cases "z2l_select is_match config ke :: 'e z2l_outcome + string")
    case (Inl skipped)
    with assms show ?thesis by (simp add: sample z2l_iter_def)
  next
    case (Inr channel)
    obtain t net' result where "send os (z_transport st) (z_net st) channel payload = Ret (t, net', result)"
      using send_extends_wire by blast
    with assms Inr show ?thesis by (cases result) (auto simp: sample z2l_iter_def Let_def)
  qed
qed

lemma z2l_sent:
  assumes "z2l_iter is_match os config st (ke, payload) = Ret (st', Sent seq)"
  shows "\<exists>channel. ke = key_prefix config @ ''/'' @ channel \<and> channel \<noteq> [] \<and>
    is_allowed is_match channel config \<and> seq = sequence_counter (z_transport st) \<and>
    z_transport st' = (z_transport st)\<lparr>sequence_counter := seq + 1\<rparr> \<and>
    wire (z_net st') = wire (z_net st) @ map (Pair (multicast_addr (z_transport st)))
      (datagrams (fragment_mtu (z_transport st)) seq channel payload) \<and>
    z_sent st' = record_sequence (z_sent st) seq \<and> seq \<in> z_sent st'"
proof -
  from assms obtain channel where sel: "z2l_select is_match config ke = (Inr channel :: 'a z2l_outcome + string)"
    by (auto simp: z2l_iter_def z2l_select_def split: sum.splits if_splits)
  then have ch: "ke = key_prefix config @ ''/'' @ channel" "channel \<noteq> []" "is_allowed is_match channel config"
    by (auto simp: z2l_select_def from_key_iff split: sum.splits if_splits)
  obtain t net result where
    send: "send os (z_transport st) (z_net st) channel payload = Ret (t, net, result)"
    using send_extends_wire by blast
  with assms sel have res: "result = Inr seq"
    and st': "st' = st\<lparr>z_transport := t, z_net := net, z_sent := record_sequence (z_sent st) seq\<rparr>"
    by (cases result; simp add: z2l_iter_def Let_def)+
  from send_wire [OF send [unfolded res]] ch st' show ?thesis
    by (intro exI [where x = channel]) (simp add: record_latest)
qed

text \<open>Evaluates the selection of a literal key under the default configuration.\<close>

lemmas select_eval =
  z2l_select_def key_expr_to_lcm_channel_def strip_prefix_def Config_default_def
  DEFAULT_KEY_PREFIX_def is_allowed_def

text \<open>The samples that the task gets before its subscriber fails.\<close>

fun samples :: "'z sample_event list \<Rightarrow> 'z sample_event list" where
  "samples [] = []"
| "samples (SubscriberError e # events) = []"
| "samples (Sample ke payload # events) = Sample ke payload # samples events"

lemma zenoh_run_accounting:
  "\<exists>st' outs. zenoh_to_lcm_run is_match os config st events = Ret (st', outs) \<and>
    length outs = length (samples events) \<and>
    sequence_counter (z_transport st') = sequence_counter (z_transport st) +
      word_of_nat (length (filter took_number outs)) \<and>
    z_sent st' \<subseteq> z_sent st \<union> {n. Sent n \<in> set outs} \<and>
    (\<exists>ps. wire (z_net st') = wire (z_net st) @ ps)"
proof (induction events arbitrary: st)
  case (Cons event events)
  show ?case
  proof (cases event)
    case (Sample ke payload)
    obtain st1 out where 1: "z2l_iter is_match os config st (ke, payload) = Ret (st1, out)"
      "sequence_counter (z_transport st1) =
        sequence_counter (z_transport st) + (if took_number out then 1 else 0)"
      "z_sent st1 \<subseteq> z_sent st \<union> {n. Sent n = out}" "\<exists>ps. wire (z_net st1) = wire (z_net st) @ ps"
      using z2l_iter_total by blast
    obtain st' outs where 2: "zenoh_to_lcm_run is_match os config st1 events = Ret (st', outs)"
      "length outs = length (samples events)"
      "sequence_counter (z_transport st') = sequence_counter (z_transport st1) +
        word_of_nat (length (filter took_number outs))"
      "z_sent st' \<subseteq> z_sent st1 \<union> {n. Sent n \<in> set outs}" "\<exists>ps. wire (z_net st') = wire (z_net st1) @ ps"
      using Cons.IH [of st1] by blast
    from 1 2 have "zenoh_to_lcm_run is_match os config st (event # events) = Ret (st', out # outs)"
      by (simp add: Sample)
    moreover have "z_sent st' \<subseteq> z_sent st \<union> {n. Sent n \<in> set (out # outs)}"
      using 1(3) 2(4) by auto
    moreover have "\<exists>ps. wire (z_net st') = wire (z_net st) @ ps" using 1(4) 2(5) by auto
    ultimately show ?thesis using 1(2) 2(2,3) by (auto simp: Sample)
  qed simp
qed simp

section \<open>Properties\<close>

text \<open>Claim C15. The Zenoh to LCM task never panics, whatever samples arrive and whatever the socket
  does. If the subscriber cannot be declared it ends at once; otherwise every sample up to the
  subscriber's failure has one outcome, the counter advances once for each sample that was handed to
  \<open>send\<close>, failed or not, and only numbers that were sent are recorded for loop prevention.\<close>

theorem zenoh_task_accounting:
  "\<exists>st' outs. zenoh_to_lcm_task declare_subscriber is_match os config st events = Ret (st', outs) \<and>
    (case declare_subscriber (sub_expr config) of
       Some e \<Rightarrow> st' = st \<and> outs = []
     | None \<Rightarrow> length outs = length (samples events)) \<and>
    sequence_counter (z_transport st') = sequence_counter (z_transport st) +
      word_of_nat (length (filter took_number outs)) \<and>
    z_sent st' \<subseteq> z_sent st \<union> {n. Sent n \<in> set outs} \<and>
    (\<exists>ps. wire (z_net st') = wire (z_net st) @ ps)"
  using zenoh_run_accounting [of is_match os config st events]
  by (auto simp: zenoh_to_lcm_task_def split: option.split)

text \<open>Claim C22. While the counter has not wrapped, recording a sent number keeps the shared set
  bounded: at most 10000 numbers are left, the new one and all of the last 5000 among them, and
  nothing appears that was not recorded.\<close>

theorem record_keeps_window:
  assumes "seqs \<subseteq> {..n}"
  shows "card (record_sequence seqs n) \<le> 10000 \<and> n \<in> record_sequence seqs n \<and>
    (\<forall>s \<in> seqs. unat n \<le> unat s + 5000 \<longrightarrow> s \<in> record_sequence seqs n) \<and>
    record_sequence seqs n \<subseteq> insert n seqs"
proof -
  have "insert n seqs \<subseteq> {..n}" using assms by simp
  from prune_card [OF this] show ?thesis
    using record_latest record_keeps record_subset by (auto simp: record_sequence_def)
qed

theorem record_keeps_window_witness:
  "card (record_sequence {3, 4} 5) \<le> 10000 \<and> 5 \<in> record_sequence {3, 4} 5 \<and>
    3 \<in> record_sequence {3, 4} 5"
  using record_keeps_window [of "{3, 4}" 5] by simp

text \<open>Claim C37. The comment of \<open>prune_sent_sequences\<close> does not hold once the counter wraps: a
  recorded number is never discarded by recording numbers that are not above it by more than
  5000, however many they are, although all of them are more recent.\<close>

theorem old_numbers_survive_wrap:
  assumes "s \<in> seqs" and "\<forall>n \<in> set ns. unat n \<le> unat s + 5000"
  shows "s \<in> fold (\<lambda>n seqs. record_sequence seqs n) ns seqs"
  using assms
proof (induction ns arbitrary: seqs)
  case (Cons n ns)
  then have "s \<in> record_sequence seqs n" by (simp add: record_keeps)
  with Cons show ?case by simp
qed simp

theorem old_numbers_survive_wrap_witness:
  "4294967295 \<in> fold (\<lambda>n seqs. record_sequence seqs n) (map word_of_nat [0..<20000]) {4294967295}"
proof (rule old_numbers_survive_wrap)
  have "unat n \<le> 4294972295" for n :: u32
  proof -
    have "unat n < 2 ^ 32" using unsigned_less [of n] by simp
    then show ?thesis by simp
  qed
  moreover have "unat (4294967295 :: u32) + 5000 = 4294972295" by simp
  ultimately show "\<forall>n \<in> set (map word_of_nat [0..<20000] :: u32 list). unat n \<le> unat (4294967295 :: u32) + 5000"
    by (simp only: ball_simps) blast
qed simp

text \<open>A sample that is sent: its key has the configured prefix, its channel passes the
  filter, exactly the datagrams of that channel and payload leave under the counter's value, the
  counter advances, and the number is recorded for loop prevention.\<close>

lemma sample_is_sent:
  assumes "z2l_iter is_match os config st (ke, payload) = Ret (st', Sent seq)"
  shows "\<exists>channel. ke = key_prefix config @ ''/'' @ channel \<and> channel \<noteq> [] \<and>
    is_allowed is_match channel config \<and> seq = sequence_counter (z_transport st) \<and>
    z_transport st' = (z_transport st)\<lparr>sequence_counter := seq + 1\<rparr> \<and>
    wire (z_net st') = wire (z_net st) @ map (Pair (multicast_addr (z_transport st)))
      (datagrams (fragment_mtu (z_transport st)) seq channel payload) \<and>
    z_sent st' = record_sequence (z_sent st) seq \<and> seq \<in> z_sent st'"
  using assms by (rule z2l_sent)

lemma example_sample:
  "z2l_iter (\<lambda>_ _. True) (\<lambda>_ _. None :: nat option) (Config_default :: unit Config)
      \<lparr>z_transport = example_transport, z_net = \<lparr>attempts = 0, wire = []\<rparr>, z_sent = {}\<rparr>
      (''lcm/CH'', [1]) =
    Ret (\<lparr>z_transport = example_transport\<lparr>sequence_counter := 8\<rparr>,
          z_net = \<lparr>attempts = 1, wire = [(multicast_addr example_transport,
            encode_short_message [] 7 ''CH'' [1])]\<rparr>, z_sent = {7}\<rparr>, Sent 7)"
proof -
  have "is_short 33 ''CH'' [1]" by (simp add: is_short_def)
  moreover have "record_sequence {} 7 = {7}"
    using record_subset [of "{}" 7] record_latest [of 7 "{}"] by blast
  ultimately show ?thesis
    by (simp add: z2l_iter_def select_eval send_eq example_transport_def
        datagrams_def send_all_no_failure)
qed

lemma sample_is_sent_example:
  "\<exists>st'. z2l_iter (\<lambda>_ _. True) (\<lambda>_ _. None :: nat option) (Config_default :: unit Config)
      \<lparr>z_transport = example_transport, z_net = \<lparr>attempts = 0, wire = []\<rparr>, z_sent = {}\<rparr>
      (''lcm/CH'', [1]) = Ret (st', Sent 7) \<and>
    wire (z_net st') = [(multicast_addr example_transport, encode_short_message [] 7 ''CH'' [1])] \<and>
    7 \<in> z_sent st'"
  using example_sample sample_is_sent [OF example_sample] by simp

end
