(* ===== verification/Lcm_To_Zenoh.thy ===== *)
theory Lcm_To_Zenoh
  imports Delivery Zenoh_To_Lcm
begin

text \<open>
  The LCM to Zenoh task, \<open>zenoh-plugin-lcm/src/lcm_to_zenoh.rs\<close>: each message that \<open>recv\<close>
  returns is dropped as a loopback, filtered, or published under its key. What the Zenoh session
  does with a publication is outside; its failure is only logged, so it has no effect here.
\<close>

section \<open>The task\<close>

datatype 'e l2z_outcome =
    ReceiveError "'e io_error"
  | SkippedLoopback u32
  | NotAllowed string
  | Unmappable MappingError
  | Published KeyExpr bytes

definition l2z_handle ::
  "('re \<Rightarrow> string \<Rightarrow> bool) \<Rightarrow> (string \<Rightarrow> bool) \<Rightarrow> 're Config \<Rightarrow> sent_sequences \<Rightarrow> LcmMessage
     \<Rightarrow> sent_sequences \<times> 'e l2z_outcome" where
  "l2z_handle is_match valid_ke config seqs msg =
     (let (seqs, removed) = take_sequence seqs (msg_sequence_number msg)
      in if removed then (seqs, SkippedLoopback (msg_sequence_number msg))
      else if \<not> is_allowed is_match (msg_channel msg) config
      then (seqs, NotAllowed (msg_channel msg))
      else (case lcm_channel_to_key_expr valid_ke (msg_channel msg) (key_prefix config) of
              Inl e \<Rightarrow> (seqs, Unmappable e)
            | Inr ke \<Rightarrow> (seqs, Published ke (msg_data msg))))"

text \<open>One round of the loop: \<open>recv\<close>, then the message; \<open>None\<close> while \<open>recv\<close> is still waiting.\<close>

definition l2z_round ::
  "('re \<Rightarrow> string \<Rightarrow> bool) \<Rightarrow> (string \<Rightarrow> bool) \<Rightarrow> 're Config
     \<Rightarrow> FragmentReassembler \<times> sent_sequences \<Rightarrow> 'e incoming list
     \<Rightarrow> ((FragmentReassembler \<times> sent_sequences) \<times> 'e incoming list \<times> 'e l2z_outcome option) may_panic"
where
  "l2z_round is_match valid_ke config = (\<lambda>(r, seqs) events. do {
     (r, rest, res) \<leftarrow> recv r events;
     (case res of
        Waiting \<Rightarrow> Ret ((r, seqs), rest, None)
      | RecvFailed e \<Rightarrow> Ret ((r, seqs), rest, Some (ReceiveError e))
      | Received msg \<Rightarrow>
          let (seqs, out) = l2z_handle is_match valid_ke config seqs msg
          in Ret ((r, seqs), rest, Some out)) })"

text \<open>The task starts with an empty reassembler with a timeout of one second.\<close>

definition l2z_reassembler :: "'re Config \<Rightarrow> FragmentReassembler" where
  "l2z_reassembler config = FragmentReassembler_new (from_secs 1) (cfg_max_message_size config)"

text \<open>The loop, with one unit of fuel per round; every round but the last consumes an event.\<close>

fun lcm_to_zenoh_run ::
  "nat \<Rightarrow> ('re \<Rightarrow> string \<Rightarrow> bool) \<Rightarrow> (string \<Rightarrow> bool) \<Rightarrow> 're Config
     \<Rightarrow> FragmentReassembler \<times> sent_sequences \<Rightarrow> 'e incoming list
     \<Rightarrow> ((FragmentReassembler \<times> sent_sequences) \<times> 'e l2z_outcome list) may_panic"
where
  "lcm_to_zenoh_run 0 is_match valid_ke config st events = Panic"
| "lcm_to_zenoh_run (Suc fuel) is_match valid_ke config st events = do {
     (st, rest, out) \<leftarrow> l2z_round is_match valid_ke config st events;
     (case out of
        None \<Rightarrow> Ret (st, [])
      | Some out \<Rightarrow> do {
          (st, outs) \<leftarrow> lcm_to_zenoh_run fuel is_match valid_ke config st rest;
          Ret (st, out # outs) }) }"

section \<open>Lemmas\<close>

lemma l2z_handle_loopback:
  "msg_sequence_number msg \<in> seqs \<Longrightarrow>
     l2z_handle is_match valid_ke config seqs msg =
       (seqs - {msg_sequence_number msg}, SkippedLoopback (msg_sequence_number msg))"
  by (simp add: l2z_handle_def take_sequence_def)

lemma l2z_handle_published_iff:
  "l2z_handle is_match valid_ke config seqs msg = (seqs', Published ke data) \<longleftrightarrow>
     seqs' = seqs \<and> msg_sequence_number msg \<notin> seqs \<and>
     is_allowed is_match (msg_channel msg) config \<and> plain_channel (msg_channel msg) \<and>
     ke = key_prefix config @ ''/'' @ msg_channel msg \<and> valid_ke ke \<and> data = msg_data msg"
proof (cases "lcm_channel_to_key_expr valid_ke (msg_channel msg) (key_prefix config)")
  case (Inl e)
  then have "\<not> (plain_channel (msg_channel msg) \<and> valid_ke (key_prefix config @ ''/'' @ msg_channel msg))"
    using to_key_iff [of valid_ke "msg_channel msg" "key_prefix config"] by auto
  with Inl show ?thesis by (auto simp: l2z_handle_def take_sequence_def)
next
  case (Inr k)
  with to_key_iff [of valid_ke "msg_channel msg" "key_prefix config" k] show ?thesis
    by (auto simp: l2z_handle_def take_sequence_def)
qed

lemma l2z_handle_seqs: "fst (l2z_handle is_match valid_ke config seqs msg) = seqs - {msg_sequence_number msg}"
  by (auto simp: l2z_handle_def take_sequence_def split: sum.split)

text \<open>\<open>recv\<close> and the round built on it never panic, and consume an event when they answer.\<close>

lemma recv_consumes:
  assumes "run_until recv_iter r events = Ret (r', rest, Some res)"
  shows "length rest < length events"
  using assms
  by (induction events arbitrary: r)
    (auto simp: bind_eq_Some_conv less_SucI split: prod.splits option.splits)

lemma recv_iter_not_Waiting: "recv_iter r ev = Ret (r', Some res) \<Longrightarrow> res \<noteq> Waiting"
  by (auto simp: recv_iter_def bind_eq_Some_conv split: incoming.splits option.splits Packet.splits)
    (metis Packet.exhaust)

lemma run_until_not_Waiting:
  "run_until recv_iter r events = Ret (r', rest, Some res) \<Longrightarrow> res \<noteq> Waiting"
  by (induction events arbitrary: r)
    (auto simp: bind_eq_Some_conv dest: recv_iter_not_Waiting split: prod.splits option.splits)

lemma l2z_round_ok:
  assumes "reassembler_inv t m r"
  shows "\<exists>r' seqs' rest out. l2z_round is_match valid_ke config (r, seqs) events = Ret ((r', seqs'), rest, out)
    \<and> reassembler_inv t m r' \<and> (out \<noteq> None \<longrightarrow> length rest < length events)"
proof -
  obtain r' rest out where run: "run_until recv_iter r events = Ret (r', rest, out)"
    and inv: "reassembler_inv t m r'"
    using receiver.poll_ok [OF assms] by blast
  show ?thesis
  proof (cases out)
    case None
    with run inv show ?thesis by (simp add: l2z_round_def recv_run_until)
  next
    case (Some res)
    have "length rest < length events" using run Some recv_consumes by blast
    with run inv Some run_until_not_Waiting [of r events r' rest res] show ?thesis
      by (cases res) (auto simp: l2z_round_def recv_run_until split: prod.split)
  qed
qed

lemma lcm_to_zenoh_run_ok:
  assumes "reassembler_inv t m r" and "length events < fuel"
  shows "\<exists>r' seqs' outs. lcm_to_zenoh_run fuel is_match valid_ke config (r, seqs) events
    = Ret ((r', seqs'), outs) \<and> reassembler_inv t m r' \<and> length outs \<le> length events"
  using assms
proof (induction fuel arbitrary: r seqs events)
  case (Suc fuel)
  obtain r' seqs' rest out where 1:
    "l2z_round is_match valid_ke config (r, seqs) events = Ret ((r', seqs'), rest, out)"
    "reassembler_inv t m r'" "out \<noteq> None \<longrightarrow> length rest < length events"
    using l2z_round_ok [OF Suc.prems(1)] by blast
  show ?case
  proof (cases out)
    case None
    with 1 show ?thesis by simp
  next
    case (Some o1)
    with 1 Suc.prems(2) have "length rest < fuel" by simp
    with Suc.IH [OF 1(2), of rest seqs'] obtain r2 seqs2 outs where
      "lcm_to_zenoh_run fuel is_match valid_ke config (r', seqs') rest = Ret ((r2, seqs2), outs)"
      "reassembler_inv t m r2" "length outs \<le> length rest" by blast
    with 1 Some show ?thesis by auto
  qed
qed simp

text \<open>The result does not depend on the fuel once there is enough of it.\<close>

lemma lcm_to_zenoh_run_fuel:
  assumes "reassembler_inv t m r" and "length events < fuel" and "length events < fuel'"
  shows "lcm_to_zenoh_run fuel is_match valid_ke config (r, seqs) events =
    lcm_to_zenoh_run fuel' is_match valid_ke config (r, seqs) events"
  using assms
proof (induction fuel arbitrary: fuel' r seqs events)
  case (Suc fuel)
  obtain k where k: "fuel' = Suc k" using Suc.prems(3) by (cases fuel') auto
  obtain r' seqs' rest out where 1:
    "l2z_round is_match valid_ke config (r, seqs) events = Ret ((r', seqs'), rest, out)"
    "reassembler_inv t m r'" "out \<noteq> None \<longrightarrow> length rest < length events"
    using l2z_round_ok [OF Suc.prems(1)] by blast
  with Suc.IH [OF 1(2), of rest k seqs'] Suc.prems(2,3) k show ?case
    by (cases out) simp_all
qed simp

definition example_message :: LcmMessage where
  "example_message = \<lparr>msg_channel = ''CH'', msg_sequence_number = 9, msg_data = [1]\<rparr>"

lemma example_recv:
  "recv r [Datagram (encode_short_message [] 9 ''CH'' [1]) example_sender 3 3] =
    Ret (r, [] :: nat incoming list, Received example_message)"
proof -
  have "length (encode_short_message [] 9 ''CH'' [1]) \<le> MAX_DATAGRAM_SIZE"
    by (simp add: length_encode_short_message MAX_DATAGRAM_SIZE_def)
  moreover have "wf_channel ''CH''" by (simp add: channel_eval)
  ultimately show ?thesis by (simp add: short_message_roundtrip example_message_def)
qed

lemma example_run:
  "lcm_to_zenoh_run 2 (\<lambda>_ _. True) (\<lambda>_. True) (Config_default :: unit Config) (r, {})
      [Datagram (encode_short_message [] 9 ''CH'' [1]) example_sender 3 3] =
    Ret ((r, {}), [Published ''lcm/CH'' [1] :: nat l2z_outcome])"
proof -
  have "l2z_handle (\<lambda>_ _. True) (\<lambda>_. True) (Config_default :: unit Config) {} example_message =
      ({}, Published ''lcm/CH'' [1] :: nat l2z_outcome)"
    unfolding l2z_handle_published_iff
    by (simp add: example_message_def is_allowed_def Config_default_def DEFAULT_KEY_PREFIX_def plain_channel_def)
  then have "l2z_round (\<lambda>_ _. True) (\<lambda>_. True) (Config_default :: unit Config) (r, {})
      [Datagram (encode_short_message [] 9 ''CH'' [1]) example_sender 3 3] =
      Ret ((r, {}), [], Some (Published ''lcm/CH'' [1] :: nat l2z_outcome))" for r
    using example_recv [of r] by (simp add: l2z_round_def del: recv.simps)
  moreover have "l2z_round (\<lambda>_ _. True) (\<lambda>_. True) (Config_default :: unit Config) (r, {}) [] =
      Ret ((r, {}), [], None :: nat l2z_outcome option)"
    by (simp add: l2z_round_def)
  ultimately show ?thesis by (simp add: numeral_2_eq_2)
qed

section \<open>Properties\<close>

text \<open>Claim C14. The LCM to Zenoh task never panics and never hangs on a finite input: started on its
  own reassembler, it consumes any events with one unit of fuel more than there are events, each
  outcome takes at least one event, and more fuel changes nothing.\<close>

theorem lcm_task_total:
  assumes "length events < fuel"
  shows "\<exists>r' seqs' outs. lcm_to_zenoh_run fuel is_match valid_ke config (l2z_reassembler config, seqs) events
      = Ret ((r', seqs'), outs) \<and>
    length outs \<le> length events \<and>
    lcm_to_zenoh_run (length events + 1) is_match valid_ke config (l2z_reassembler config, seqs) events
      = Ret ((r', seqs'), outs)"
proof -
  have inv: "reassembler_inv (from_secs 1) (cfg_max_message_size config) (l2z_reassembler config)"
    by (simp add: l2z_reassembler_def reassembler_ok_new)
  obtain r' seqs' outs where
    "lcm_to_zenoh_run fuel is_match valid_ke config (l2z_reassembler config, seqs) events
      = Ret ((r', seqs'), outs)" "length outs \<le> length events"
    using lcm_to_zenoh_run_ok [OF inv assms] by blast
  moreover have "lcm_to_zenoh_run (length events + 1) is_match valid_ke config (l2z_reassembler config, seqs) events
    = lcm_to_zenoh_run fuel is_match valid_ke config (l2z_reassembler config, seqs) events"
    by (rule lcm_to_zenoh_run_fuel [OF inv _ assms]) simp
  ultimately show ?thesis by metis
qed

theorem lcm_task_total_witness:
  "\<exists>r' seqs' outs. lcm_to_zenoh_run 3 (\<lambda>_ _. True) (\<lambda>_. True) (Config_default :: unit Config)
      (l2z_reassembler (Config_default :: unit Config), {7})
      [Datagram [1, 2] example_sender 0 0, RecvError (0 :: nat)] = Ret ((r', seqs'), outs) \<and>
    length outs \<le> 2"
  using lcm_task_total [of "[Datagram [1, 2] example_sender 0 0, RecvError (0 :: nat)]" 3 "\<lambda>_ _. True"
      "\<lambda>_. True" "Config_default :: unit Config" "{7}"] by auto

text \<open>What the LCM to Zenoh task publishes: exactly the messages that are not recorded as
  sent by the bridge, whose channel is allowed, nonempty and free of reserved characters and maps
  to a key Zenoh accepts; the publication has that key and the message's bytes.\<close>

lemma published_exactly:
  "snd (l2z_handle is_match valid_ke config seqs msg) = Published ke data \<longleftrightarrow>
     msg_sequence_number msg \<notin> seqs \<and> is_allowed is_match (msg_channel msg) config \<and>
     lcm_channel_to_key_expr valid_ke (msg_channel msg) (key_prefix config) = Inr ke \<and>
     data = msg_data msg"
  unfolding snd_eq_iff l2z_handle_published_iff to_key_iff by blast

text \<open>Loop prevention drops a message that carries a recorded number, whatever its channel,
  and it drops it once: the number is consumed, and the next message with it is handled as any
  other. Other recorded numbers are not touched.\<close>

lemma loopback_dropped_once:
  assumes "msg_sequence_number msg = n"
  shows "\<exists>seqs'. l2z_handle is_match valid_ke config (record_sequence seqs n) msg =
      (seqs', SkippedLoopback n) \<and> n \<notin> seqs' \<and>
    (\<forall>m. m \<noteq> n \<longrightarrow> (m \<in> seqs' \<longleftrightarrow> m \<in> record_sequence seqs n)) \<and>
    snd (l2z_handle is_match valid_ke config seqs' msg) \<noteq> SkippedLoopback n"
proof -
  let ?seqs' = "fst (take_sequence (record_sequence seqs n) n)"
  have "snd (take_sequence (record_sequence seqs n) n)" by (rule sent.record_take_out)
  then have "l2z_handle is_match valid_ke config (record_sequence seqs n) msg = (?seqs', SkippedLoopback n)"
    by (cases "take_sequence (record_sequence seqs n) n") (simp add: l2z_handle_def assms)
  moreover have "\<not> snd (take_sequence ?seqs' n)" by (rule sent.take_out_once)
  then have "snd (l2z_handle is_match valid_ke config ?seqs' msg) \<noteq> SkippedLoopback n"
    by (auto simp: l2z_handle_def assms split: prod.split sum.split)
  ultimately show ?thesis by (auto simp: sent.take_out_mem)
qed

lemma loopback_dropped_once_example:
  "\<exists>seqs'. l2z_handle (\<lambda>_ _. True) (\<lambda>_. True) (Config_default :: unit Config) (record_sequence {3} 7)
      \<lparr>msg_channel = ''CH'', msg_sequence_number = 7, msg_data = [1]\<rparr> =
    (seqs', SkippedLoopback 7 :: nat l2z_outcome) \<and> 7 \<notin> seqs'"
  using loopback_dropped_once [of "\<lparr>msg_channel = ''CH'', msg_sequence_number = 7, msg_data = [1]\<rparr>" 7
      "\<lambda>_ _. True" "\<lambda>_. True" "Config_default :: unit Config" "{3}"] by auto

text \<open>Claim C17. The channel filter holds in both directions: a channel that the allow list does not
  match, or that the deny list matches, is neither sent to LCM nor published to Zenoh, and deny
  wins over allow.\<close>

theorem filtered_in_both_directions:
  assumes "(\<exists>a. allow config = Some a \<and> \<not> is_match a channel) \<or>
    (\<exists>d. deny config = Some d \<and> is_match d channel)"
  shows "(\<forall>ke. z2l_select is_match config ke \<noteq> Inr channel) \<and>
    (\<forall>seqs msg ke data. msg_channel msg = channel \<longrightarrow>
      snd (l2z_handle is_match valid_ke config seqs msg) \<noteq> Published ke data)"
proof -
  have no: "\<not> is_allowed is_match channel config" using assms by (auto simp: is_allowed_iff)
  then have "z2l_select is_match config ke \<noteq> Inr channel" for ke
    by (auto simp: z2l_select_def split: sum.splits if_splits)
  moreover have "snd (l2z_handle is_match valid_ke config seqs msg) \<noteq> Published ke data"
    if "msg_channel msg = channel" for seqs msg ke data
    using that no l2z_handle_published_iff [of is_match valid_ke config seqs msg _ ke data]
    by (metis prod.collapse)
  ultimately show ?thesis by blast
qed

theorem filtered_in_both_directions_witness:
  "\<forall>ke. z2l_select (\<lambda>re s. re = s) (Config_default\<lparr>allow := Some ''POSE'', deny := Some ''POSE''\<rparr>) ke
    \<noteq> (Inr ''POSE'' :: nat z2l_outcome + string)"
  by (rule filtered_in_both_directions [THEN conjunct1]) simp

end
