(* ===== verification/Bridge.thy ===== *)
theory Bridge
  imports Lcm_To_Zenoh
begin

text \<open>
  The two tasks of the bridge running concurrently, at the level of whole messages. They share
  the sent sequence numbers; the multicast group loops the bridge's own messages back. The
  Zenoh to LCM task first sends and then, after an await point, records the sequence number
  (\<open>zenoh_to_lcm.rs\<close> lines 107 to 112), so the two are separate steps here and the other task
  may run in between. Messages of other LCM applications arrive at any time, and the group may
  reorder and lose messages. The flag beside a message says whether this bridge sent it; no step
  reads it.
\<close>

section \<open>States and steps\<close>

record bridge =
  b_counter :: u32
  b_sent :: sent_sequences
  b_unrecorded :: "u32 option"
  b_group :: "(bool \<times> LcmMessage) list"
  b_published :: "(bool \<times> KeyExpr \<times> bytes) list"

definition bridge_init :: bridge where
  "bridge_init = \<lparr>b_counter = 0, b_sent = {}, b_unrecorded = None, b_group = [], b_published = []\<rparr>"

datatype action =
    Send KeyExpr bytes
  | FailSend
  | Record
  | Foreign LcmMessage
  | Deliver nat
  | Lose nat

definition without :: "nat \<Rightarrow> 'a list \<Rightarrow> 'a list" where
  "without i xs = take i xs @ drop (Suc i) xs"

definition publication :: "bool \<Rightarrow> 'e l2z_outcome \<Rightarrow> (bool \<times> KeyExpr \<times> bytes) list" where
  "publication own out = (case out of Published ke data \<Rightarrow> [(own, ke, data)] | _ \<Rightarrow> [])"

inductive bridge_step ::
  "('re \<Rightarrow> string \<Rightarrow> bool) \<Rightarrow> (string \<Rightarrow> bool) \<Rightarrow> 're Config \<Rightarrow> bridge \<Rightarrow> action \<Rightarrow> bridge \<Rightarrow> bool"
  for is_match valid_ke config
where
  sent: "b_unrecorded s = None \<Longrightarrow> z2l_select is_match config ke = (Inr channel :: unit z2l_outcome + string) \<Longrightarrow>
    bridge_step is_match valid_ke config s (Send ke payload)
      (s\<lparr>b_counter := b_counter s + 1, b_unrecorded := Some (b_counter s),
         b_group := b_group s @ [(True, \<lparr>msg_channel = channel, msg_sequence_number = b_counter s,
                                         msg_data = payload\<rparr>)]\<rparr>)"
| send_failed: "b_unrecorded s = None \<Longrightarrow>
    bridge_step is_match valid_ke config s FailSend (s\<lparr>b_counter := b_counter s + 1\<rparr>)"
| recorded: "b_unrecorded s = Some n \<Longrightarrow>
    bridge_step is_match valid_ke config s Record
      (s\<lparr>b_sent := record_sequence (b_sent s) n, b_unrecorded := None\<rparr>)"
| foreign: "bridge_step is_match valid_ke config s (Foreign m) (s\<lparr>b_group := b_group s @ [(False, m)]\<rparr>)"
| deliver: "i < length (b_group s) \<Longrightarrow> b_group s ! i = (own, m) \<Longrightarrow>
    l2z_handle is_match valid_ke config (b_sent s) m = (seqs, out :: unit l2z_outcome) \<Longrightarrow>
    bridge_step is_match valid_ke config s (Deliver i)
      (s\<lparr>b_sent := seqs, b_group := without i (b_group s),
         b_published := b_published s @ publication own out\<rparr>)"
| lose: "i < length (b_group s) \<Longrightarrow>
    bridge_step is_match valid_ke config s (Lose i) (s\<lparr>b_group := without i (b_group s)\<rparr>)"

inductive_simps bridge_step_simps:
  "bridge_step is_match valid_ke config s (Send ke payload) t"
  "bridge_step is_match valid_ke config s FailSend t"
  "bridge_step is_match valid_ke config s Record t"
  "bridge_step is_match valid_ke config s (Foreign m) t"
  "bridge_step is_match valid_ke config s (Deliver i) t"
  "bridge_step is_match valid_ke config s (Lose i) t"

text \<open>The step as a function: the label holds all choice of the scheduler and of the network.\<close>

fun bridge_exec ::
  "('re \<Rightarrow> string \<Rightarrow> bool) \<Rightarrow> (string \<Rightarrow> bool) \<Rightarrow> 're Config \<Rightarrow> bridge \<Rightarrow> action \<Rightarrow> bridge option"
where
  "bridge_exec is_match valid_ke config s (Send ke payload) =
     (case (b_unrecorded s, z2l_select is_match config ke :: unit z2l_outcome + string) of
        (None, Inr channel) \<Rightarrow>
          Some (s\<lparr>b_counter := b_counter s + 1, b_unrecorded := Some (b_counter s),
            b_group := b_group s @ [(True, \<lparr>msg_channel = channel, msg_sequence_number = b_counter s,
                                            msg_data = payload\<rparr>)]\<rparr>)
      | _ \<Rightarrow> None)"
| "bridge_exec is_match valid_ke config s FailSend =
     (if b_unrecorded s = None then Some (s\<lparr>b_counter := b_counter s + 1\<rparr>) else None)"
| "bridge_exec is_match valid_ke config s Record =
     map_option (\<lambda>n. s\<lparr>b_sent := record_sequence (b_sent s) n, b_unrecorded := None\<rparr>) (b_unrecorded s)"
| "bridge_exec is_match valid_ke config s (Foreign m) = Some (s\<lparr>b_group := b_group s @ [(False, m)]\<rparr>)"
| "bridge_exec is_match valid_ke config s (Deliver i) =
     (if i < length (b_group s) then
        let (own, m) = b_group s ! i;
            (seqs, out) = (l2z_handle is_match valid_ke config (b_sent s) m :: _ \<times> unit l2z_outcome)
        in Some (s\<lparr>b_sent := seqs, b_group := without i (b_group s),
                   b_published := b_published s @ publication own out\<rparr>)
      else None)"
| "bridge_exec is_match valid_ke config s (Lose i) =
     (if i < length (b_group s) then Some (s\<lparr>b_group := without i (b_group s)\<rparr>) else None)"

lemma bridge_step_exec:
  "bridge_step is_match valid_ke config s a t \<longleftrightarrow> bridge_exec is_match valid_ke config s a = Some t"
  by (cases a) (auto simp: bridge_step_simps Let_def split: option.split sum.split prod.split)

text \<open>The states reached by steps that an environment \<open>env\<close> allows.\<close>

inductive reachable ::
  "(bridge \<Rightarrow> action \<Rightarrow> bool) \<Rightarrow> ('re \<Rightarrow> string \<Rightarrow> bool) \<Rightarrow> (string \<Rightarrow> bool) \<Rightarrow> 're Config \<Rightarrow> bridge \<Rightarrow> bool"
  for env is_match valid_ke config
where
  init: "reachable env is_match valid_ke config bridge_init"
| step: "reachable env is_match valid_ke config s \<Longrightarrow> env s a \<Longrightarrow>
    bridge_step is_match valid_ke config s a t \<Longrightarrow> reachable env is_match valid_ke config t"

section \<open>When loop prevention works\<close>

definition own_seqs :: "bridge \<Rightarrow> u32 list" where
  "own_seqs s = map (\<lambda>(_, m). msg_sequence_number m) (filter fst (b_group s))"

text \<open>
  The environment in which the sequence-number mechanism is sound: a loopback is not delivered
  before its number is recorded; no foreign message carries a number that is recorded; a number
  is not reused while its message is in the group; and no message stays in the group while 5000
  more are sent.
\<close>

definition orderly :: "bridge \<Rightarrow> action \<Rightarrow> bool" where
  "orderly s a =
     (case a of
        Send ke payload \<Rightarrow> b_counter s \<notin> set (own_seqs s)
      | Record \<Rightarrow>
          (\<forall>n. b_unrecorded s = Some n \<longrightarrow> (\<forall>q \<in> set (own_seqs s). unat n \<le> unat q + 5000))
      | Deliver i \<Rightarrow>
          (case b_group s ! i of
             (True, m) \<Rightarrow> b_unrecorded s \<noteq> Some (msg_sequence_number m)
           | (False, m) \<Rightarrow> msg_sequence_number m \<notin> b_sent s)
      | _ \<Rightarrow> True)"

definition loop_inv :: "bridge \<Rightarrow> bool" where
  "loop_inv s \<longleftrightarrow>
     (\<forall>q \<in> set (own_seqs s). q \<in> b_sent s \<or> b_unrecorded s = Some q) \<and>
     distinct (own_seqs s) \<and> (\<forall>p \<in> set (b_published s). \<not> fst p)"

lemma filter_without:
  assumes "i < length xs"
  shows "\<exists>ys zs. filter P xs = ys @ (if P (xs ! i) then [xs ! i] else []) @ zs \<and>
    filter P (without i xs) = ys @ zs"
proof -
  have "filter P xs = filter P (take i xs @ xs ! i # drop (Suc i) xs)"
    using id_take_nth_drop [OF assms] by simp
  then show ?thesis
    by (intro exI [where x = "filter P (take i xs)"] exI [where x = "filter P (drop (Suc i) xs)"])
      (simp add: without_def)
qed

lemma own_seqs_without:
  assumes "i < length (b_group s)" and "b_group s ! i = (own, m)" and "b_group t = without i (b_group s)"
  shows "\<exists>xs ys. own_seqs s = xs @ (if own then [msg_sequence_number m] else []) @ ys \<and> own_seqs t = xs @ ys"
proof -
  obtain ys zs where "filter fst (b_group s) = ys @ (if own then [(own, m)] else []) @ zs"
    "filter fst (b_group t) = ys @ zs"
    using filter_without [OF assms(1), of fst, folded assms(3), unfolded assms(2)] by auto
  then show ?thesis
    by (intro exI [where x = "map (\<lambda>(_, m). msg_sequence_number m) ys"]
        exI [where x = "map (\<lambda>(_, m). msg_sequence_number m) zs"])
      (simp add: own_seqs_def)
qed

lemma loop_inv_step:
  assumes "bridge_step is_match valid_ke config s a t" and "loop_inv s" and "orderly s a"
  shows "loop_inv t"
  using assms
proof (cases rule: bridge_step.cases)
  case (sent ke channel payload)
  then show ?thesis using assms(2,3) by (auto simp: loop_inv_def own_seqs_def orderly_def)
next
  case send_failed
  then show ?thesis using assms(2) by (auto simp: loop_inv_def own_seqs_def)
next
  case (recorded n)
  have own: "own_seqs t = own_seqs s" using recorded by (simp add: own_seqs_def)
  have "q \<in> b_sent t" if q: "q \<in> set (own_seqs s)" for q
  proof (cases "q \<in> b_sent s")
    case True
    with q recorded assms(3) show ?thesis by (auto simp: orderly_def intro: record_keeps)
  next
    case False
    with q recorded assms(2) show ?thesis by (auto simp: loop_inv_def record_latest)
  qed
  with own recorded(2) assms(2) show ?thesis by (simp add: loop_inv_def)
next
  case (foreign m)
  then show ?thesis using assms(2) by (auto simp: loop_inv_def own_seqs_def)
next
  case (deliver i own m seqs out)
  obtain xs ys where seqs: "own_seqs s = xs @ (if own then [msg_sequence_number m] else []) @ ys"
    "own_seqs t = xs @ ys"
    using own_seqs_without [OF deliver(3,4), of t] deliver(2) by auto
  have sent: "seqs = b_sent s - {msg_sequence_number m}"
    using deliver(5) l2z_handle_seqs by (metis fst_conv)
  show ?thesis
  proof (cases own)
    case True
    with assms(2,3) deliver(1,4) seqs(1) have "msg_sequence_number m \<in> b_sent s"
      by (auto simp: loop_inv_def orderly_def)
    with deliver(5) have "out = SkippedLoopback (msg_sequence_number m)"
      by (simp add: l2z_handle_loopback)
    with True assms(2) deliver(2) seqs sent show ?thesis
      by (auto simp: loop_inv_def publication_def)
  next
    case False
    with assms(3) deliver(1,4) have "msg_sequence_number m \<notin> b_sent s" by (simp add: orderly_def)
    with False assms(2) deliver(2) seqs sent show ?thesis
      by (auto simp: loop_inv_def publication_def split: l2z_outcome.splits)
  qed
next
  case (lose i)
  obtain own m where "b_group s ! i = (own, m)" by (cases "b_group s ! i")
  from own_seqs_without [OF lose(3) this, of t] lose(2) assms(2) show ?thesis
    by (auto simp: loop_inv_def split: if_splits)
qed

lemma reachable_loop_inv: "reachable orderly is_match valid_ke config s \<Longrightarrow> loop_inv s"
proof (induction rule: reachable.induct)
  case init
  show ?case by (simp add: loop_inv_def bridge_init_def own_seqs_def)
next
  case (step s a t)
  then show ?case by (blast intro: loop_inv_step)
qed

section \<open>The tasks refine the steps\<close>

text \<open>The abstraction of the Zenoh to LCM task between two of its samples.\<close>

definition abstracts :: "bridge \<Rightarrow> z2l_state \<Rightarrow> bool" where
  "abstracts s st \<longleftrightarrow> b_counter s = sequence_counter (z_transport st) \<and> b_sent s = z_sent st \<and>
     b_unrecorded s = None"

lemma z2l_select_Inr_iff:
  "z2l_select is_match config ke = Inr channel \<longleftrightarrow>
     channel \<noteq> [] \<and> ke = key_prefix config @ ''/'' @ channel \<and> is_allowed is_match channel config"
proof (cases "key_expr_to_lcm_channel ke (key_prefix config)")
  case (Inl e)
  then show ?thesis using from_key_iff [of ke "key_prefix config" channel] by (auto simp: z2l_select_def)
next
  case (Inr c)
  then show ?thesis using from_key_iff [of ke "key_prefix config" c] by (auto simp: z2l_select_def)
qed

text \<open>What \<open>l2z_handle\<close> publishes does not depend on the type of the system's errors.\<close>

lemma publication_handle:
  "publication own (snd (l2z_handle is_match valid_ke config seqs msg :: _ \<times> 'e l2z_outcome)) =
   publication own (snd (l2z_handle is_match valid_ke config seqs msg :: _ \<times> 'f l2z_outcome))"
  by (simp add: publication_def l2z_handle_def take_sequence_def split: sum.split)

lemma step_sent_recorded:
  assumes "b_unrecorded s = None" and "z2l_select is_match config ke = (Inr channel :: unit z2l_outcome + string)"
  shows "\<exists>t u. bridge_step is_match valid_ke config s (Send ke payload) t \<and>
    bridge_step is_match valid_ke config t Record u \<and>
    b_counter u = b_counter s + 1 \<and> b_sent u = record_sequence (b_sent s) (b_counter s) \<and>
    b_unrecorded u = None \<and>
    b_group u = b_group s @ [(True, \<lparr>msg_channel = channel, msg_sequence_number = b_counter s,
      msg_data = payload\<rparr>)]"
  using assms by (simp add: bridge_step_simps)

section \<open>Properties\<close>

text \<open>The steps are what the tasks do. An iteration of the Zenoh to LCM task is a send followed
  by a record when it sends, a failed send when the socket fails, and no step when the sample is
  skipped; in the first case the message that enters the group has the channel that \<open>send\<close> was
  given and the number it returned.\<close>

lemma zenoh_task_refines_steps:
  assumes "z2l_iter is_match os config st (ke, payload) = Ret (st', out)" and "abstracts s st"
  shows "case out of
      Sent seq \<Rightarrow> (\<exists>channel t u. ke = key_prefix config @ ''/'' @ channel \<and>
        bridge_step is_match valid_ke config s (Send ke payload) t \<and>
        bridge_step is_match valid_ke config t Record u \<and> abstracts u st' \<and>
        b_group u = b_group s @
          [(True, \<lparr>msg_channel = channel, msg_sequence_number = seq, msg_data = payload\<rparr>)])
    | SendFailed e \<Rightarrow> (\<exists>t. bridge_step is_match valid_ke config s FailSend t \<and> abstracts t st')
    | _ \<Rightarrow> st' = st"
proof (cases out)
  case (Sent seq)
  from z2l_sent [OF assms(1) [unfolded Sent]] obtain channel where
    ch: "ke = key_prefix config @ ''/'' @ channel" "channel \<noteq> []" "is_allowed is_match channel config"
    and st': "seq = sequence_counter (z_transport st)"
      "z_transport st' = (z_transport st)\<lparr>sequence_counter := seq + 1\<rparr>"
      "z_sent st' = record_sequence (z_sent st) seq" by blast
  have "z2l_select is_match config ke = (Inr channel :: unit z2l_outcome + string)"
    using ch by (simp add: z2l_select_Inr_iff)
  from step_sent_recorded [OF _ this, of s valid_ke payload] assms(2) st' ch(1) Sent show ?thesis
    by (fastforce simp: abstracts_def)
next
  case (SendFailed e)
  have "bridge_step is_match valid_ke config s FailSend (s\<lparr>b_counter := b_counter s + 1\<rparr>)"
    using assms(2) by (intro bridge_step.send_failed) (simp add: abstracts_def)
  moreover have "abstracts (s\<lparr>b_counter := b_counter s + 1\<rparr>) st'"
    using z2l_failed [OF assms(1) [unfolded SendFailed]] assms(2) by (simp add: abstracts_def)
  ultimately show ?thesis using SendFailed by auto
next
  case (NoChannel e)
  then show ?thesis using z2l_skipped [OF assms(1)] by simp
next
  case (ChannelNotAllowed c)
  then show ?thesis using z2l_skipped [OF assms(1)] by simp
qed

lemma example_abstracts:
  "abstracts (bridge_init\<lparr>b_counter := 7\<rparr>)
    \<lparr>z_transport = example_transport, z_net = \<lparr>attempts = 0, wire = []\<rparr>, z_sent = {}\<rparr>"
  by (simp add: abstracts_def bridge_init_def example_transport_def)

lemma zenoh_task_refines_steps_example:
  "\<exists>t u. bridge_step (\<lambda>_ _. True) (\<lambda>_. True) (Config_default :: unit Config)
      (bridge_init\<lparr>b_counter := 7\<rparr>) (Send ''lcm/CH'' [1]) t \<and>
    bridge_step (\<lambda>_ _. True) (\<lambda>_. True) (Config_default :: unit Config) t Record u \<and>
    b_sent u = {7} \<and> map (\<lambda>(_, m). msg_sequence_number m) (b_group u) = [7]"
proof -
  obtain channel t u where
    "bridge_step (\<lambda>_ _. True) (\<lambda>_. True) (Config_default :: unit Config)
      (bridge_init\<lparr>b_counter := 7\<rparr>) (Send ''lcm/CH'' [1]) t"
    "bridge_step (\<lambda>_ _. True) (\<lambda>_. True) (Config_default :: unit Config) t Record u"
    and u: "b_sent u = {7}" "b_group u = b_group (bridge_init\<lparr>b_counter := 7\<rparr>) @
      [(True, \<lparr>msg_channel = channel, msg_sequence_number = 7, msg_data = [1]\<rparr>)]"
    using zenoh_task_refines_steps [OF example_sample example_abstracts, of "\<lambda>_. True"]
    unfolding abstracts_def by auto
  moreover have "map (\<lambda>(_, m). msg_sequence_number m) (b_group u) = [7]"
    unfolding u(2) by (simp add: bridge_init_def)
  ultimately show ?thesis by (intro exI [where x = t] exI [where x = u] conjI)
qed

text \<open>A round of the LCM to Zenoh task that receives a message which is in the group is the
  delivery of that message: it ends with the same set of sent numbers and publishes the same.\<close>

lemma lcm_task_refines_steps:
  fixes events :: "'e incoming list"
  assumes "recv r events = Ret (r', rest, Received m)"
    and "i < length (b_group s)" and "b_group s ! i = (own, m)"
  shows "\<exists>out t. l2z_round is_match valid_ke config (r, b_sent s) events = Ret ((r', b_sent t), rest, Some out) \<and>
    bridge_step is_match valid_ke config s (Deliver i) t \<and>
    b_published t = b_published s @ publication own out"
proof -
  obtain seqs uout where h: "l2z_handle is_match valid_ke config (b_sent s) m = (seqs, uout :: unit l2z_outcome)"
    by fastforce
  let ?t = "s\<lparr>b_sent := seqs, b_group := without i (b_group s),
    b_published := b_published s @ publication own uout\<rparr>"
  have step: "bridge_step is_match valid_ke config s (Deliver i) ?t"
    using assms(2,3) h by (rule bridge_step.deliver)
  obtain seqs' out where h': "l2z_handle is_match valid_ke config (b_sent s) m = (seqs', out :: 'e l2z_outcome)"
    by fastforce
  have "seqs' = seqs"
    using h h' l2z_handle_seqs [of is_match valid_ke config "b_sent s" m] by (metis fst_conv)
  moreover have "publication own uout = publication own out"
    using publication_handle [of own is_match valid_ke config "b_sent s" m] h h' by (metis snd_conv)
  moreover have "l2z_round is_match valid_ke config (r, b_sent s) events = Ret ((r', seqs'), rest, Some out)"
    using assms(1) h' by (simp add: l2z_round_def)
  ultimately show ?thesis using step
    by (intro exI [where x = out] exI [where x = ?t]) simp
qed

lemma lcm_task_refines_steps_example:
  "\<exists>out t. l2z_round (\<lambda>_ _. True) (\<lambda>_. True) (Config_default :: unit Config) (example_reassembler, {})
      [Datagram (encode_short_message [] 9 ''CH'' [1]) example_sender 3 3] =
      Ret ((example_reassembler, b_sent t), [] :: nat incoming list, Some out) \<and>
    bridge_step (\<lambda>_ _. True) (\<lambda>_. True) (Config_default :: unit Config)
      (bridge_init\<lparr>b_group := [(False, example_message)]\<rparr>) (Deliver 0) t \<and>
    b_published t = publication False out"
  using lcm_task_refines_steps [OF example_recv, of 0 "bridge_init\<lparr>b_group := [(False, example_message)]\<rparr>"
      False "\<lambda>_ _. True" "\<lambda>_. True" "Config_default :: unit Config"]
  by (simp add: bridge_init_def)


lemma example_select:
  "z2l_select (\<lambda>_ _. True) (Config_default :: unit Config) ''lcm/CH'' =
    (Inr ''CH'' :: unit z2l_outcome + string)"
  by (simp add: select_eval)

text \<open>The state after a sample on \<open>lcm/CH\<close> was sent and its number recorded, by the steps of the code.\<close>

lemma example_sent:
  "\<exists>s. reachable orderly (\<lambda>_ _. True) (\<lambda>_. True) (Config_default :: unit Config) s \<and> b_sent s = {0} \<and>
    b_group s = [(True, \<lparr>msg_channel = ''CH'', msg_sequence_number = 0, msg_data = [1]\<rparr>)] \<and> b_published s = [] \<and>
    b_unrecorded s = None"
proof -
  let ?m = "\<lparr>msg_channel = ''CH'', msg_sequence_number = 0, msg_data = [1]\<rparr>"
  let ?s = "bridge_init\<lparr>b_counter := 1, b_unrecorded := Some 0, b_group := [(True, ?m)]\<rparr>"
  have "bridge_step (\<lambda>_ _. True) (\<lambda>_. True) (Config_default :: unit Config) bridge_init
      (Send ''lcm/CH'' [1]) ?s"
    using bridge_step.sent [OF _ example_select, of bridge_init "\<lambda>_. True" "[1]"]
    by (simp add: bridge_init_def)
  then have 1: "reachable orderly (\<lambda>_ _. True) (\<lambda>_. True) (Config_default :: unit Config) ?s"
    by (rule reachable.step [OF reachable.init, rotated])
      (simp add: orderly_def own_seqs_def bridge_init_def)
  have "bridge_step (\<lambda>_ _. True) (\<lambda>_. True) (Config_default :: unit Config) ?s Record
      (?s\<lparr>b_sent := record_sequence (b_sent ?s) 0, b_unrecorded := None\<rparr>)"
    by (rule bridge_step.recorded) simp
  then have 2: "reachable orderly (\<lambda>_ _. True) (\<lambda>_. True) (Config_default :: unit Config)
      (?s\<lparr>b_sent := record_sequence (b_sent ?s) 0, b_unrecorded := None\<rparr>)"
    by (rule reachable.step [OF 1, rotated]) (simp add: orderly_def own_seqs_def)
  have "record_sequence {} 0 = {0}"
    using record_subset [of "{}" 0] record_latest [of 0 "{}"] by blast
  with 2 show ?thesis by (intro exI conjI) (assumption, simp_all add: bridge_init_def)
qed

text \<open>Claim C4. Loop freedom: as long as a loopback is not delivered before its number is recorded,
  no foreign message carries a recorded number, and no message of the bridge stays in the group
  while 5000 more are sent, the bridge never publishes a message it sent itself, whatever the
  order of sends, deliveries, losses and foreign messages.\<close>

theorem no_loop:
  assumes "reachable orderly is_match valid_ke config s"
  shows "\<forall>(own, ke, data) \<in> set (b_published s). \<not> own"
  using reachable_loop_inv [OF assms] by (auto simp: loop_inv_def)

theorem no_loop_witness:
  "\<exists>s. reachable orderly (\<lambda>_ _. True) (\<lambda>_. True) (Config_default :: unit Config) s \<and>
    length (b_group s) = 1 \<and> list_all (\<lambda>(own, ke, data). \<not> own) (b_published s)"
proof -
  obtain s where s: "reachable orderly (\<lambda>_ _. True) (\<lambda>_. True) (Config_default :: unit Config) s"
    "length (b_group s) = 1" using example_sent by fastforce
  with no_loop [OF s(1)] show ?thesis unfolding list_all_iff by blast
qed

text \<open>Claim C30. The number is recorded only after the send, so a loopback that arrives in between is
  published: the bridge returns a Zenoh sample to Zenoh under its own key.\<close>

theorem loopback_race:
  assumes "b_unrecorded s = None" and "b_counter s \<notin> b_sent s"
    and "z2l_select is_match config ke = (Inr channel :: unit z2l_outcome + string)"
    and "plain_channel channel" and "valid_ke ke"
  shows "\<exists>t u. bridge_step is_match valid_ke config s (Send ke payload) t \<and>
    bridge_step is_match valid_ke config t (Deliver (length (b_group s))) u \<and>
    b_published u = b_published s @ [(True, ke, payload)]"
proof -
  let ?m = "\<lparr>msg_channel = channel, msg_sequence_number = b_counter s, msg_data = payload\<rparr>"
  have ke: "ke = key_prefix config @ ''/'' @ channel" "is_allowed is_match channel config"
    using assms(3) by (auto simp: z2l_select_def from_key_iff split: sum.splits if_splits)
  have handle: "l2z_handle is_match valid_ke config (b_sent s) ?m =
      (b_sent s, Published ke payload :: unit l2z_outcome)"
    using assms(2,4,5) ke by (simp add: l2z_handle_published_iff)
  with assms(1,3) handle show ?thesis
    by (simp add: bridge_step_exec without_def publication_def)
qed

theorem loopback_race_witness:
  "\<exists>t u. bridge_step (\<lambda>_ _. True) (\<lambda>_. True) (Config_default :: unit Config) bridge_init
      (Send ''lcm/CH'' [1]) t \<and>
    bridge_step (\<lambda>_ _. True) (\<lambda>_. True) (Config_default :: unit Config) t (Deliver 0) u \<and>
    b_published u = [(True, ''lcm/CH'', [1])]"
  using loopback_race [of bridge_init, OF _ _ example_select, of "\<lambda>_. True" "[1]"]
  by (simp add: bridge_init_def plain_channel_def)

text \<open>Claim C31. The shared set is keyed by the sequence number alone, so a foreign message that carries
  a recorded number is lost, and it consumes the number: the bridge's own message, delivered after
  it, is published back to Zenoh.\<close>

theorem number_collision:
  assumes "n \<in> b_sent s" and "i < length (b_group s)"
    and "b_group s ! i = (True, \<lparr>msg_channel = channel, msg_sequence_number = n, msg_data = payload\<rparr>)"
    and "is_allowed is_match channel config" and "plain_channel channel"
    and "valid_ke (key_prefix config @ ''/'' @ channel)" and "msg_sequence_number m = n"
  shows "\<exists>t u v. bridge_step is_match valid_ke config s (Foreign m) t \<and>
    bridge_step is_match valid_ke config t (Deliver (length (b_group s))) u \<and>
    b_published u = b_published s \<and>
    bridge_step is_match valid_ke config u (Deliver i) v \<and>
    b_published v = b_published s @ [(True, key_prefix config @ ''/'' @ channel, payload)]"
proof -
  let ?own = "\<lparr>msg_channel = channel, msg_sequence_number = n, msg_data = payload\<rparr>"
  have 1: "l2z_handle is_match valid_ke config (b_sent s) m =
      (b_sent s - {n}, SkippedLoopback n :: unit l2z_outcome)"
    using assms(1,7) by (simp add: l2z_handle_loopback)
  have 2: "l2z_handle is_match valid_ke config (b_sent s - {n}) ?own = (b_sent s - {n},
      Published (key_prefix config @ ''/'' @ channel) payload :: unit l2z_outcome)"
    using assms(4-6) by (simp add: l2z_handle_published_iff)
  show ?thesis
    using assms(2,3) 1 2
    by (simp add: bridge_step_exec without_def publication_def)
qed

theorem number_collision_witness:
  "\<exists>s t u v. reachable orderly (\<lambda>_ _. True) (\<lambda>_. True) (Config_default :: unit Config) s \<and>
    bridge_step (\<lambda>_ _. True) (\<lambda>_. True) (Config_default :: unit Config) s
      (Foreign \<lparr>msg_channel = ''OTHER'', msg_sequence_number = 0, msg_data = [2]\<rparr>) t \<and>
    bridge_step (\<lambda>_ _. True) (\<lambda>_. True) (Config_default :: unit Config) t (Deliver 1) u \<and>
    b_published u = [] \<and>
    bridge_step (\<lambda>_ _. True) (\<lambda>_. True) (Config_default :: unit Config) u (Deliver 0) v \<and>
    b_published v = [(True, ''lcm/CH'', [1])]"
proof -
  obtain s where s: "reachable orderly (\<lambda>_ _. True) (\<lambda>_. True) (Config_default :: unit Config) s"
    "b_sent s = {0}" "b_published s = []"
    "b_group s = [(True, \<lparr>msg_channel = ''CH'', msg_sequence_number = 0, msg_data = [1]\<rparr>)]"
    using example_sent by blast
  from number_collision [of 0 s 0 "''CH''" "[1]" "\<lambda>_ _. True" "Config_default :: unit Config"
      "\<lambda>_. True" "\<lparr>msg_channel = ''OTHER'', msg_sequence_number = 0, msg_data = [2]\<rparr>"] s(2-4)
  have "\<exists>t u v. bridge_step (\<lambda>_ _. True) (\<lambda>_. True) (Config_default :: unit Config) s
        (Foreign \<lparr>msg_channel = ''OTHER'', msg_sequence_number = 0, msg_data = [2]\<rparr>) t \<and>
      bridge_step (\<lambda>_ _. True) (\<lambda>_. True) (Config_default :: unit Config) t (Deliver 1) u \<and>
      b_published u = [] \<and>
      bridge_step (\<lambda>_ _. True) (\<lambda>_. True) (Config_default :: unit Config) u (Deliver 0) v \<and>
      b_published v = [(True, ''lcm/CH'', [1])]"
    by (simp add: Config_default_def DEFAULT_KEY_PREFIX_def is_allowed_def plain_channel_def)
  with s(1) show ?thesis by blast
qed

end
