(* ===== verification/Bridge_Progress.thy ===== *)
theory Bridge_Progress
  imports Bridge
begin

text \<open>
  Progress of the two tasks: from a state that orderly steps reach and in which no foreign message carries
  a number in use, recording what was sent and receiving what is in the group empties the group, publishes
  every foreign message that the filter and the mapping let through, in order, and nothing of the
  bridge's own.
\<close>

section \<open>Runs of the executable step\<close>

fun bridge_run ::
  "('re \<Rightarrow> string \<Rightarrow> bool) \<Rightarrow> (string \<Rightarrow> bool) \<Rightarrow> 're Config \<Rightarrow> bridge \<Rightarrow> action list \<Rightarrow> bridge option"
where
  "bridge_run is_match valid_ke config s [] = Some s"
| "bridge_run is_match valid_ke config s (a # as) =
     Option.bind (bridge_exec is_match valid_ke config s a) (\<lambda>t. bridge_run is_match valid_ke config t as)"

text \<open>What a message publishes when no number is recorded for it.\<close>

definition relayed ::
  "('re \<Rightarrow> string \<Rightarrow> bool) \<Rightarrow> (string \<Rightarrow> bool) \<Rightarrow> 're Config \<Rightarrow> bool \<times> LcmMessage
     \<Rightarrow> (bool \<times> KeyExpr \<times> bytes) list" where
  "relayed is_match valid_ke config = (\<lambda>(own, m).
     if own then [] else publication False (snd (l2z_handle is_match valid_ke config {} m :: _ \<times> unit l2z_outcome)))"

text \<open>The foreign messages in the group carry no number that the bridge has in use.\<close>

definition foreign_fresh :: "bridge \<Rightarrow> bool" where
  "foreign_fresh s \<longleftrightarrow> (\<forall>(own, m) \<in> set (b_group s). \<not> own \<longrightarrow>
     msg_sequence_number m \<notin> b_sent s \<and> b_unrecorded s \<noteq> Some (msg_sequence_number m))"

lemma publication_fresh:
  assumes "msg_sequence_number m \<notin> seqs"
  shows "publication own (snd (l2z_handle is_match valid_ke config seqs m)) =
    publication own (snd (l2z_handle is_match valid_ke config {} m))"
  using assms by (simp add: publication_def l2z_handle_def take_sequence_def split: sum.split)

lemma without_first [simp]: "without 0 (x # xs) = xs"
  by (simp add: without_def)

lemma deliver_first:
  assumes inv: "loop_inv s" and rec: "b_unrecorded s = None" and fresh: "foreign_fresh s"
    and group: "b_group s = x # xs"
  shows "\<exists>t. bridge_exec is_match valid_ke config s (Deliver 0) = Some t \<and> loop_inv t \<and>
    b_unrecorded t = None \<and> foreign_fresh t \<and> b_group t = xs \<and>
    b_published t = b_published s @ relayed is_match valid_ke config x"
proof -
  obtain own m where x: "x = (own, m)" by (cases x)
  obtain seqs out where h: "l2z_handle is_match valid_ke config (b_sent s) m = (seqs, out :: unit l2z_outcome)"
    by fastforce
  let ?t = "s\<lparr>b_sent := seqs, b_group := xs, b_published := b_published s @ publication own out\<rparr>"
  have exec: "bridge_exec is_match valid_ke config s (Deliver 0) = Some ?t"
    using group x h by simp
  have seqs: "seqs \<subseteq> b_sent s" using h l2z_handle_seqs by (metis Diff_subset fst_conv)
  have "orderly s (Deliver 0)"
    using group x rec fresh by (cases own) (auto simp: orderly_def foreign_fresh_def)
  then have "loop_inv ?t"
    using loop_inv_step [OF exec [folded bridge_step_exec] inv] by blast
  moreover have "foreign_fresh ?t" using fresh group seqs rec by (auto simp: foreign_fresh_def)
  moreover have "publication own out = relayed is_match valid_ke config x"
  proof (cases own)
    case True
    with inv rec group x have "msg_sequence_number m \<in> b_sent s"
      by (auto simp: loop_inv_def own_seqs_def)
    with h x True show ?thesis by (auto simp: l2z_handle_loopback relayed_def publication_def)
  next
    case False
    with fresh group x have "msg_sequence_number m \<notin> b_sent s" by (auto simp: foreign_fresh_def)
    then have "publication False (snd (l2z_handle is_match valid_ke config (b_sent s) m :: _ \<times> unit l2z_outcome)) =
        publication False (snd (l2z_handle is_match valid_ke config {} m :: _ \<times> unit l2z_outcome))"
      by (rule publication_fresh)
    with h x False show ?thesis by (simp add: relayed_def)
  qed
  ultimately show ?thesis using exec rec by auto
qed

lemma deliver_all:
  assumes "loop_inv s" and "b_unrecorded s = None" and "foreign_fresh s"
  shows "\<exists>t. bridge_run is_match valid_ke config s (replicate (length (b_group s)) (Deliver 0)) = Some t \<and>
    b_group t = [] \<and> b_unrecorded t = None \<and>
    b_published t = b_published s @ concat (map (relayed is_match valid_ke config) (b_group s))"
  using assms
proof (induction "b_group s" arbitrary: s)
  case Nil
  from Nil(1) [symmetric] Nil(3) show ?case by simp
next
  case (Cons x xs)
  obtain t where t: "bridge_exec is_match valid_ke config s (Deliver 0) = Some t" "loop_inv t"
    "b_unrecorded t = None" "foreign_fresh t" "b_group t = xs"
    "b_published t = b_published s @ relayed is_match valid_ke config x"
    using deliver_first [OF Cons.prems Cons.hyps(2) [symmetric]] by blast
  obtain u where "bridge_run is_match valid_ke config t (replicate (length xs) (Deliver 0)) = Some u"
    "b_group u = []" "b_unrecorded u = None"
    "b_published u = b_published t @ concat (map (relayed is_match valid_ke config) xs)"
    using Cons.hyps(1) [OF t(5) [symmetric] t(2-4)] t(5) by auto
  with t Cons.hyps(2) [symmetric] show ?case by (auto simp del: bridge_exec.simps)
qed

section \<open>Properties\<close>



end
