(* ===== verification/In_Order.thy ===== *)
theory In_Order
  imports Delivery
begin

text \<open>
  A stream of messages over an orderly network: a sender calls \<open>send\<close> for one message after the
  other, the datagrams arrive in order and without loss, those of one message within the timeout,
  and a receiver calls \<open>recv\<close> as often. It gets the messages, in order and with consecutive
  sequence numbers, whatever their mixture of short and fragmented ones. This is what the
  integration tests of \<open>lcm-transport/tests/multicast.rs\<close> rely on.
\<close>

section \<open>The stream\<close>

text \<open>A message that \<open>send\<close> carries without loss.\<close>

definition intact :: "usize \<Rightarrow> string \<times> bytes \<Rightarrow> bool" where
  "intact mtu = (\<lambda>(channel, data). wf_channel channel \<and> mtu \<le> MAX_DATAGRAM_SIZE \<and>
     (is_short mtu channel data \<or> fragmentable mtu channel data))"

definition send_next ::
  "(nat \<Rightarrow> bytes \<Rightarrow> 'e option) \<Rightarrow> LcmTransport \<times> Net \<Rightarrow> string \<times> bytes
     \<Rightarrow> ((LcmTransport \<times> Net) \<times> ('e io_error + u32)) may_panic" where
  "send_next os = (\<lambda>(t, net) (channel, data). do {
     (t, net, result) \<leftarrow> send os t net channel data;
     Ret ((t, net), result) })"

text \<open>\<open>n\<close> calls of \<open>recv\<close>.\<close>

fun recv_many ::
  "nat \<Rightarrow> FragmentReassembler \<Rightarrow> 'e incoming list
     \<Rightarrow> (FragmentReassembler \<times> 'e incoming list \<times> 'e recv_result list) may_panic" where
  "recv_many 0 r events = Ret (r, events, [])"
| "recv_many (Suc n) r events = do {
     (r, events, result) \<leftarrow> recv r events;
     (r, events, results) \<leftarrow> recv_many n r events;
     Ret (r, events, result # results) }"

text \<open>The datagrams of the messages, message by message, and the messages with their numbers.\<close>

fun stream :: "usize \<Rightarrow> u32 \<Rightarrow> (string \<times> bytes) list \<Rightarrow> bytes list list" where
  "stream mtu seq [] = []"
| "stream mtu seq ((channel, data) # msgs) =
     datagrams mtu seq channel data # stream mtu (seq + 1) msgs"

fun numbered :: "u32 \<Rightarrow> (string \<times> bytes) list \<Rightarrow> LcmMessage list" where
  "numbered seq [] = []"
| "numbered seq ((channel, data) # msgs) =
     \<lparr>msg_channel = channel, msg_sequence_number = seq, msg_data = data\<rparr> # numbered (seq + 1) msgs"

text \<open>The datagrams arrive one by one from \<open>src\<close>, within a window of time.\<close>

definition arrive :: "SocketAddr \<Rightarrow> Duration \<Rightarrow> bytes list \<Rightarrow> 'e incoming list \<Rightarrow> bool" where
  "arrive src window pkts events \<longleftrightarrow> (\<exists>t0. list_all2 (\<lambda>pkt event.
     \<exists>now now'. event = Datagram pkt src now now' \<and> now \<le> t0 + window \<and> t0 \<le> now') pkts events)"

section \<open>Sending the stream\<close>

lemma send_stream:
  assumes "run_steps (send_next os) (t, net) msgs = Ret ((t', net'), map Inr seqs)"
  shows "wire net' = wire net @
      map (Pair (multicast_addr t)) (concat (stream (fragment_mtu t) (sequence_counter t) msgs)) \<and>
    seqs = map msg_sequence_number (numbered (sequence_counter t) msgs)"
  using assms
proof (induction msgs arbitrary: t net seqs)
  case (Cons msg msgs)
  obtain channel data where msg: "msg = (channel, data)" by (cases msg)
  with Cons.prems obtain t1 net1 seq seqs1 where
    sent: "send os t net channel data = Ret (t1, net1, Inr seq)" and
    rest: "run_steps (send_next os) (t1, net1) msgs = Ret ((t', net'), map Inr seqs1)"
      "seqs = seq # seqs1"
    by (auto simp: send_next_def bind_eq_Some_conv split: prod.splits)
  from Cons.IH [OF rest(1)] send_wire [OF sent] rest(2) show ?case by (simp add: msg)
qed simp

section \<open>Receiving one message\<close>

text \<open>What a step of the receive loop does to the pending sets of one sender.\<close>

lemma recv_iter_pending:
  assumes ok: "reassembler_ok r" and step: "recv_iter r event = Ret (r', out)"
  shows "\<not> carries key event \<Longrightarrow> pending r key = None \<Longrightarrow> pending r' key = None"
    and "carries key event \<Longrightarrow> out \<noteq> None \<Longrightarrow> pending r' key = None"
proof -
  have same: "r' = r" if "arrival_of event = None"
    using recv_iter_no_arrival [OF that, of r] step by auto
  have arrives: "process r f sender now now' = Ret (r', msg)" "out = map_option Received msg"
    if "arrival_of event = Some (f, sender, now, now')" "msg = snd (the (process r f sender now now'))"
    for f sender now now' msg
    using step that(2) by (auto simp: recv_iter_arrival [OF that(1)] process_arrival_def bind_eq_Some_conv)
  {
    assume "\<not> carries key event" and none: "pending r key = None"
    show "pending r' key = None"
    proof (cases "arrival_of event")
      case (Some a)
      obtain f sender now now' where a: "a = (f, sender, now, now')" by (cases a)
      with \<open>\<not> carries key event\<close> Some have "key \<noteq> key_of f sender" by (auto simp: carries_def is_for_def)
      moreover have "pending (expire_stale r now) key = None" using none by (simp add: expire_stale_def)
      ultimately show ?thesis
        using arrives(1) [OF Some [unfolded a] refl]
        by (auto simp: process_eq [OF ok] split: if_splits)
    qed (use same none in simp)
  next
    assume "carries key event" and "out \<noteq> None"
    then obtain f sender now now' where a: "arrival_of event = Some (f, sender, now, now')"
      "key = key_of f sender"
      by (auto simp: carries_def is_for_def split: option.splits)
    with arrives [OF a(1) refl] \<open>out \<noteq> None\<close> show "pending r' key = None"
      using process_delivers(4) [OF ok] by (metis option.exhaust option.simps(8))
  }
qed

lemma recv_iters_pending:
  assumes "reassembler_inv d m r" and "run_steps recv_iter r events = Ret (r', outs)"
    and "\<forall>event \<in> set events. \<not> carries key event" and "pending r key = None"
  shows "pending r' key = None"
  using assms
proof (induction events arbitrary: r outs)
  case (Cons event events)
  then obtain r1 out outs1 where 1: "recv_iter r event = Ret (r1, out)"
    "run_steps recv_iter r1 events = Ret (r', outs1)"
    by (auto simp: bind_eq_Some_conv split: prod.splits)
  have "reassembler_inv d m r1" using receiver.step_inv [OF Cons.prems(1) 1(1)] by simp
  moreover have "pending r1 key = None"
    using recv_iter_pending(1) [OF _ 1(1)] Cons.prems by (simp add: reassembler_inv_def)
  ultimately show ?case using Cons.IH [OF _ 1(2)] Cons.prems(3) by simp
qed simp

lemma all_carried:
  assumes "\<forall>event \<in> set events. carries key event"
  shows "length outs = length events \<Longrightarrow> event_answers key events outs = outs"
    and "event_numbers key events =
      map (\<lambda>event. unat (frag_fragment_number (fst (the (arrival_of event))))) events"
proof -
  assume len: "length outs = length events"
  have "filter (\<lambda>(ev, _). carries key ev) (zip events outs) = zip events outs"
    using assms by (auto intro!: filter_True dest: set_zip_leftD)
  with len show "event_answers key events outs = outs" by (simp add: event_answers_def)
next
  show "event_numbers key events =
      map (\<lambda>event. unat (frag_fragment_number (fst (the (arrival_of event))))) events"
    using assms
    by (induction events) (auto simp: event_numbers_def numbers_for_def carries_def split: option.splits)
qed

text \<open>The datagrams of a fragmented message, as events, in order.\<close>

lemma ordered_events:
  assumes frag: "fragmentable mtu channel data" "wf_channel channel" "mtu \<le> MAX_DATAGRAM_SIZE"
    and arr: "arrive src window (sent_datagrams mtu seq channel data) events"
  shows "\<exists>t0. (\<forall>n. \<forall>event \<in> set events. carries (src, n) event \<longleftrightarrow> n = seq) \<and>
    event_numbers (src, seq) events = [0..<length events] \<and>
    length events = length (sent_datagrams mtu seq channel data) \<and>
    (\<forall>event \<in> set events. event_ok (src, seq) (sent_datagrams mtu seq channel data) t0 window event)"
proof -
  let ?pkts = "sent_datagrams mtu seq channel data" and ?fs = "sent_fragments mtu seq channel data"
  obtain t0 where "list_all2 (\<lambda>pkt event. \<exists>now now'. event = Datagram pkt src now now' \<and>
      now \<le> t0 + window \<and> t0 \<le> now') ?pkts events"
    using arr by (auto simp: arrive_def)
  then have len: "length events = length ?pkts"
    and ev: "\<And>i. i < length events \<Longrightarrow> \<exists>now now'. events ! i = Datagram (?pkts ! i) src now now' \<and>
      now \<le> t0 + window \<and> t0 \<le> now'"
    by (auto simp: list_all2_conv_all_nth)
  have lenf: "length ?fs = length ?pkts" by (simp add: sent_datagrams_def)
  have at: "frag_sequence_number (?fs ! i) = seq" "unat (frag_fragment_number (?fs ! i)) = i"
    if "i < length ?pkts" for i
    using fragmentation_sent [OF frag(1), of seq] that lenf by (simp_all add: fragmentation_def frag_at_def)
  have arrival: "\<exists>now now'. arrival_of (events ! i) = Some (?fs ! i, src, now, now')"
    if "i < length events" for i
    using ev [OF that] arrival_of_sent [OF frag, of i seq src] that len by metis
  have carried: "carries (src, n) (events ! i) \<longleftrightarrow> n = seq" if "i < length events" for i n
    using arrival [OF that] at(1) [of i] that len by (auto simp: carries_def is_for_def key_of_def)
  then have all: "\<forall>event \<in> set events. carries (src, n) event \<longleftrightarrow> n = seq" for n
    by (auto simp: in_set_conv_nth)
  have "event_numbers (src, seq) events =
      map (\<lambda>event. unat (frag_fragment_number (fst (the (arrival_of event))))) events"
    using all [of seq] by (intro all_carried(2)) simp
  also have "\<dots> = [0..<length events]"
  proof (rule nth_equalityI)
    fix i
    assume "i < length (map (\<lambda>event. unat (frag_fragment_number (fst (the (arrival_of event))))) events)"
    then have i: "i < length events" by simp
    with arrival [OF i] at(2) [of i] len
    show "map (\<lambda>event. unat (frag_fragment_number (fst (the (arrival_of event))))) events ! i =
        [0..<length events] ! i" by auto
  qed simp
  finally have numbers: "event_numbers (src, seq) events = [0..<length events]" .
  have "event_ok (src, seq) ?pkts t0 window (events ! i)" if "i < length events" for i
    using ev [OF that] that len by (auto simp: event_ok_def)
  then have "\<forall>event \<in> set events. event_ok (src, seq) ?pkts t0 window event"
    by (auto simp: in_set_conv_nth)
  with all numbers len show ?thesis by blast
qed

text \<open>Both kinds of message are received by one call, which leaves no pending set of the sender.\<close>

lemma fragmented_received:
  assumes frag: "fragmentable mtu channel data" "wf_channel channel" "mtu \<le> MAX_DATAGRAM_SIZE"
    and inv: "reassembler_inv d m r" "length data \<le> m" and none: "\<forall>n. pending r (src, n) = None"
    and arr: "arrive src d (sent_datagrams mtu seq channel data) events"
  shows "\<exists>r'. recv r (events @ rest) = Ret (r', rest,
      Received \<lparr>msg_channel = channel, msg_sequence_number = seq, msg_data = data\<rparr>) \<and>
    reassembler_inv d m r' \<and> (\<forall>n. pending r' (src, n) = None)"
proof -
  let ?pkts = "sent_datagrams mtu seq channel data"
  let ?msg = "\<lparr>msg_channel = channel, msg_sequence_number = seq, msg_data = data\<rparr>"
  obtain t0 where carried: "\<forall>n. \<forall>event \<in> set events. carries (src, n) event \<longleftrightarrow> n = seq"
    and numbers: "event_numbers (src, seq) events = [0..<length events]"
    and len: "length events = length ?pkts"
    and ok: "\<forall>event \<in> set events. event_ok (src, seq) ?pkts t0 d event"
    using ordered_events [OF frag arr] by (elim exE conjE) (rule that)
  from inv have r: "reassembler_ok r" "timeout r = d" "max_message_size r = m"
    by (simp_all add: reassembler_inv_def)
  have "sent_fragments mtu seq channel data \<noteq> []"
    using fragmentation_sent [OF frag(1)] by (simp add: fragmentation_def)
  then obtain k where k: "length events = Suc k"
    using len by (cases "sent_fragments mtu seq channel data") (auto simp: sent_datagrams_def)
  obtain r' outs where run: "run_steps recv_iter r events = Ret (r', outs)"
    and answers: "event_answers (src, seq) events outs =
      map (\<lambda>b. map_option Received (delivered seq channel data b))
        (seen_run (length ?pkts) {} (event_numbers (src, seq) events))"
    using delivery_refines [OF frag r(1) none [rule_format, of seq] inv(2) [folded r(3)]
      ok [folded r(2)]] by blast
  have "event_answers (src, seq) events outs = outs"
    using carried run_steps_length [OF run] by (intro all_carried(1)) simp_all
  moreover have "seen_run (length ?pkts) {} (event_numbers (src, seq) events) = replicate k False @ [True]"
  proof -
    have "set [0..<k] = {..<k}" by (simp add: atLeast0LessThan)
    then have "seen_run (Suc k) {} ([0..<k] @ [k]) = replicate (length [0..<k]) False @ [True]"
      by (intro seen_run_complete) (simp_all add: lessThan_Suc psubset_eq del: set_upt, auto)
    moreover have "[0..<length events] = [0..<k] @ [k]" "length ?pkts = Suc k" using k len by simp_all
    moreover have "length [0..<k] = k" by simp
    ultimately show ?thesis by (simp only: numbers)
  qed
  ultimately have outs: "outs = replicate k None @ [Some (Received ?msg)]"
    using answers by (simp add: delivered_def)
  have "recv r (events @ rest) = Ret (r', rest, Received ?msg)"
    using run_until_first [OF run [unfolded outs]] by (simp add: recv_run_until)
  moreover have inv': "reassembler_inv d m r'" using receiver.run_ok [OF inv(1), of events] run by auto
  moreover have "pending r' (src, n) = None" for n
  proof (cases "n = seq")
    case False
    then show ?thesis using recv_iters_pending [OF inv(1) run] carried none by blast
  next
    case True
    obtain init event where events: "events = init @ [event]"
      using k by (metis length_Suc_conv_rev)
    then obtain r1 outs1 out where 1: "run_steps recv_iter r init = Ret (r1, outs1)"
      "recv_iter r1 event = Ret (r', out)" "outs = outs1 @ [out]"
      using run by (auto simp: run_steps_append bind_eq_Some_conv split: prod.splits)
    have "reassembler_inv d m r1" using receiver.run_ok [OF inv(1), of init] 1(1) by auto
    then have "reassembler_ok r1" by (simp add: reassembler_inv_def)
    moreover have "out \<noteq> None" using 1(3) outs by auto
    moreover have "carries (src, seq) event" using carried events by simp
    ultimately show ?thesis using recv_iter_pending(2) [OF _ 1(2)] True by simp
  qed
  ultimately show ?thesis by blast
qed

lemma message_received:
  assumes msg: "intact mtu (channel, data)"
    and inv: "reassembler_inv d m r" "length data \<le> m" and none: "\<forall>n. pending r (src, n) = None"
    and arr: "arrive src d (datagrams mtu seq channel data) events"
  shows "\<exists>r'. recv r (events @ rest) = Ret (r', rest,
      Received \<lparr>msg_channel = channel, msg_sequence_number = seq, msg_data = data\<rparr>) \<and>
    reassembler_inv d m r' \<and> (\<forall>n. pending r' (src, n) = None)"
proof (cases "is_short mtu channel data")
  case True
  with arr obtain now now' where "events = [Datagram (encode_short_message [] seq channel data) src now now']"
    by (auto simp: arrive_def datagrams_def list_all2_Cons1)
  with msg True inv none short_received [of mtu channel data r "[]" seq src now now' rest] show ?thesis
    by (auto simp: intact_def simp del: recv.simps)
next
  case False
  with msg arr fragmented_received [of mtu channel data d m r src seq events rest] inv none show ?thesis
    by (simp add: intact_def datagrams_def)
qed

lemma stream_received:
  assumes "list_all (intact mtu) msgs" and "list_all (\<lambda>(channel, data). length data \<le> m) msgs"
    and "reassembler_inv d m r" and "\<forall>n. pending r (src, n) = None"
    and "list_all2 (arrive src d) (stream mtu seq msgs) eventss"
  shows "\<exists>r'. recv_many (length msgs) r (concat eventss @ rest) =
      Ret (r', rest, map Received (numbered seq msgs)) \<and> reassembler_inv d m r' \<and>
    (\<forall>n. pending r' (src, n) = None)"
  using assms
proof (induction msgs arbitrary: seq r eventss)
  case (Cons msg msgs)
  obtain channel data where msg: "msg = (channel, data)" by (cases msg)
  with Cons.prems(5) obtain events eventss1 where ev: "eventss = events # eventss1"
    "arrive src d (datagrams mtu seq channel data) events"
    "list_all2 (arrive src d) (stream mtu (seq + 1) msgs) eventss1"
    by (auto simp: list_all2_Cons1)
  obtain r1 where 1: "recv r (events @ concat eventss1 @ rest) = Ret (r1, concat eventss1 @ rest,
      Received \<lparr>msg_channel = channel, msg_sequence_number = seq, msg_data = data\<rparr>)"
    "reassembler_inv d m r1" "\<forall>n. pending r1 (src, n) = None"
    using message_received [OF _ Cons.prems(3) _ Cons.prems(4) ev(2), of "concat eventss1 @ rest"]
      Cons.prems(1,2) msg by auto
  obtain r' where "recv_many (length msgs) r1 (concat eventss1 @ rest) =
      Ret (r', rest, map Received (numbered (seq + 1) msgs))"
    "reassembler_inv d m r'" "\<forall>n. pending r' (src, n) = None"
    using Cons.IH [OF _ _ 1(2,3) ev(3)] Cons.prems(1,2) by auto
  with 1(1) show ?case by (simp add: msg ev(1))
qed simp

text \<open>A socket that does not fail sends the whole stream, and a network that hands the datagrams
  over at once lets them arrive.\<close>

definition hand_over :: "SocketAddr \<Rightarrow> Instant \<Rightarrow> bytes list \<Rightarrow> 'e incoming list" where
  "hand_over src now pkts = map (\<lambda>pkt. Datagram pkt src now now) pkts"

lemma arrive_hand_over: "arrive src d pkts (hand_over src now pkts)"
  by (auto simp: arrive_def hand_over_def list_all2_conv_all_nth intro!: exI [of _ now])

lemma arrive_stream: "list_all2 (arrive src d) pktss (map (hand_over src now) pktss)"
  by (simp add: list_all2_conv_all_nth arrive_hand_over)

lemma concat_hand_over: "concat (map (hand_over src now) pktss) = hand_over src now (concat pktss)"
  by (induction pktss) (simp_all add: hand_over_def)

lemma send_intact:
  assumes "intact (fragment_mtu t) (channel, data)"
  shows "\<exists>net'. send (\<lambda>_ _. None :: 'e option) t net channel data =
      Ret (t\<lparr>sequence_counter := sequence_counter t + 1\<rparr>, net', Inr (sequence_counter t)) \<and>
    wire net' = wire net @
      map (Pair (multicast_addr t)) (datagrams (fragment_mtu t) (sequence_counter t) channel data)"
  using assms by (auto simp: send_eq Let_def send_all_no_failure intact_def fragmentable_def)

lemma send_stream_intact:
  assumes "list_all (intact (fragment_mtu t)) msgs"
  shows "\<exists>t' net'. run_steps (send_next (\<lambda>_ _. None :: 'e option)) (t, net) msgs =
      Ret ((t', net'), map Inr (map msg_sequence_number (numbered (sequence_counter t) msgs))) \<and>
    wire net' = wire net @
      map (Pair (multicast_addr t)) (concat (stream (fragment_mtu t) (sequence_counter t) msgs))"
  using assms
proof (induction msgs arbitrary: t net)
  case (Cons msg msgs)
  obtain channel data where msg: "msg = (channel, data)" by (cases msg)
  let ?t = "t\<lparr>sequence_counter := sequence_counter t + 1\<rparr>"
  obtain net1 where 1: "send (\<lambda>_ _. None :: 'e option) t net channel data =
      Ret (?t, net1, Inr (sequence_counter t))"
    "wire net1 = wire net @
      map (Pair (multicast_addr t)) (datagrams (fragment_mtu t) (sequence_counter t) channel data)"
    using send_intact [of t channel data net] Cons.prems msg by auto
  from Cons.prems have "list_all (intact (fragment_mtu ?t)) msgs" by simp
  from Cons.IH [OF this, of net1] 1 show ?case by (auto simp: msg send_next_def)
qed simp

section \<open>Properties\<close>

text \<open>Claim C12. A stream of messages is received as it was sent: when every call of \<open>send\<close> succeeds
  and the datagrams of each message arrive in order within the timeout, as many calls of \<open>recv\<close>
  return the messages one by one, in order, short and fragmented ones mixed, with their channels,
  bytes and the sequence numbers that \<open>send\<close> returned, and leave nothing pending of the sender.\<close>

theorem stream_delivered_in_order:
  assumes "run_steps (send_next os) (t, net) msgs = Ret ((t', net'), map Inr seqs)"
    and "list_all (intact (fragment_mtu t)) msgs"
    and "list_all (\<lambda>(channel, data). length data \<le> max_message_size r) msgs"
    and "reassembler_ok r" and "\<And>n. pending r (src, n) = None"
    and "list_all2 (arrive src (timeout r)) pktss eventss"
    and "pktss = stream (fragment_mtu t) (sequence_counter t) msgs"
  shows "wire net' = wire net @ map (Pair (multicast_addr t)) (concat pktss) \<and>
    (\<exists>r'. recv_many (length msgs) r (concat eventss @ rest) =
        Ret (r', rest, map Received (numbered (sequence_counter t) msgs)) \<and>
      (\<forall>n. pending r' (src, n) = None)) \<and>
    seqs = map msg_sequence_number (numbered (sequence_counter t) msgs)"
proof -
  have "reassembler_inv (timeout r) (max_message_size r) r"
    using assms(4) by (simp add: reassembler_inv_def)
  from stream_received [OF assms(2,3) this _ assms(6) [unfolded assms(7)], of rest] assms(5)
    send_stream [OF assms(1)] assms(7)
  show ?thesis by auto
qed

text \<open>A short message and a fragmented one.\<close>

definition example_stream :: "(string \<times> bytes) list" where
  "example_stream = [(''C'', [1]), (''C'', example_data)]"

theorem stream_delivered_in_order_witness:
  "\<exists>t' net' r'. run_steps (send_next (\<lambda>_ _. None :: nat option))
      (example_transport, \<lparr>attempts = 0, wire = []\<rparr>) example_stream = Ret ((t', net'), [Inr 7, Inr 8]) \<and>
    recv_many 2 example_reassembler
      (hand_over example_sender 5 (map snd (wire net')) @ [RecvError (9 :: nat)]) =
      Ret (r', [RecvError 9],
        [Received \<lparr>msg_channel = ''C'', msg_sequence_number = 7, msg_data = [1]\<rparr>,
         Received \<lparr>msg_channel = ''C'', msg_sequence_number = 8, msg_data = example_data\<rparr>])"
proof -
  let ?pktss = "stream (fragment_mtu example_transport) (sequence_counter example_transport) example_stream"
  have intact: "list_all (intact (fragment_mtu example_transport)) example_stream"
    using example_fragmentable example_channel
    by (simp add: example_stream_def intact_def example_transport_def is_short_def MAX_DATAGRAM_SIZE_def)
  have numbered: "numbered (sequence_counter example_transport) example_stream =
      [\<lparr>msg_channel = ''C'', msg_sequence_number = 7, msg_data = [1]\<rparr>,
       \<lparr>msg_channel = ''C'', msg_sequence_number = 8, msg_data = example_data\<rparr>]"
    by (simp add: example_stream_def example_transport_def)
  obtain t' net' where sent: "run_steps (send_next (\<lambda>_ _. None :: nat option))
      (example_transport, \<lparr>attempts = 0, wire = []\<rparr>) example_stream = Ret ((t', net'), map Inr [7, 8])"
    using send_stream_intact [OF intact, where 'e = nat and net = "\<lparr>attempts = 0, wire = []\<rparr>"] numbered by auto
  have size: "list_all (\<lambda>(channel, data). length data \<le> max_message_size example_reassembler) example_stream"
    by (simp add: example_stream_def length_example_data example_reassembler_ok)
  have "reassembler_ok example_reassembler" "pending example_reassembler (example_sender, n) = None" for n
    using example_reassembler_ok by simp_all
  note result = stream_delivered_in_order [OF sent intact size this arrive_stream [where now = 5] refl,
      where rest = "[RecvError (9 :: nat)]", unfolded concat_hand_over]
  obtain r' where received: "recv_many (length example_stream) example_reassembler
        (hand_over example_sender 5 (concat ?pktss) @ [RecvError (9 :: nat)]) =
      Ret (r', [RecvError 9], map Received (numbered (sequence_counter example_transport) example_stream))"
    using result by blast
  have "map snd (wire net') = concat ?pktss" using result by (simp add: comp_def del: stream.simps)
  moreover have "length example_stream = 2" by (simp add: example_stream_def)
  moreover have "map Inr [7, 8] = [Inr 7, Inr 8]" by simp
  ultimately show ?thesis
    using sent received unfolding numbered by (intro exI [of _ t'] exI [of _ net'] exI [of _ r'] conjI) (simp_all only: list.map)
qed

end
