(* ===== verification/Wire_Bridge.thy ===== *)
theory Wire_Bridge
  imports Bridge In_Order
begin

text \<open>
  The two tasks of the bridge running concurrently, at the level of datagrams. A task gives way to
  the other where the code awaits: the Zenoh to LCM task before each \<open>send_to\<close> and before it takes
  the lock to record a number (\<open>multicast.rs\<close> lines 152 to 235, \<open>zenoh_to_lcm.rs\<close> lines 106 to 112);
  the LCM to Zenoh task before each \<open>recv_from\<close> and before it takes the lock to look a number up
  (\<open>multicast.rs\<close> lines 117 to 150, \<open>lcm_to_zenoh.rs\<close> lines 33 to 46). The network holds single
  datagrams with their source, delivers them in any order and may lose them. The flag beside a
  received message says whether its last datagram came from the bridge itself; no step reads it.
\<close>

section \<open>States\<close>

datatype z2l_task = ZWaiting | ZSending u32 "bytes list" | ZRecording u32

datatype l2z_task = LReceiving | LReceived bool LcmMessage

record wire_state =
  w_transport :: LcmTransport
  w_ztask :: z2l_task
  w_sent :: sent_sequences
  w_ltask :: l2z_task
  w_reassembler :: FragmentReassembler
  w_flight :: "(SocketAddr \<times> bytes) list"
  w_published :: "(bool \<times> KeyExpr \<times> bytes) list"

definition wire_init :: "LcmTransport \<Rightarrow> 're Config \<Rightarrow> wire_state" where
  "wire_init t config =
     \<lparr>w_transport = t, w_ztask = ZWaiting, w_sent = {}, w_ltask = LReceiving,
      w_reassembler = l2z_reassembler config, w_flight = [], w_published = []\<rparr>"

section \<open>Steps\<close>

datatype wire_action =
    Take KeyExpr bytes
  | Emit
  | EmitFails
  | Store
  | Arrive nat Instant Instant
  | Handle
  | Inject SocketAddr bytes
  | Discard nat

text \<open>Where the sending task is with the datagrams \<open>pkts\<close> of message \<open>seq\<close> still to send.\<close>

fun sending :: "u32 \<Rightarrow> bytes list \<Rightarrow> z2l_task" where
  "sending seq [] = ZRecording seq"
| "sending seq (pkt # pkts) = ZSending seq (pkt # pkts)"

text \<open>
  The step as a function; \<open>None\<close> where the action is not possible. \<open>me\<close> is the source address of
  the bridge's own datagrams. A sample that is skipped, and one that does not fit the MTU, leaves the
  task waiting. The two clock readings of \<open>Arrive\<close> are in the order in which they are taken.
\<close>

fun wire_exec ::
  "('re \<Rightarrow> string \<Rightarrow> bool) \<Rightarrow> (string \<Rightarrow> bool) \<Rightarrow> 're Config \<Rightarrow> SocketAddr
     \<Rightarrow> wire_state \<Rightarrow> wire_action \<Rightarrow> wire_state option"
where
  "wire_exec is_match valid_ke config me w (Take ke payload) =
     (case (w_ztask w, z2l_select is_match config ke :: unit z2l_outcome + string) of
        (ZWaiting, Inl skipped) \<Rightarrow> Some w
      | (ZWaiting, Inr channel) \<Rightarrow>
          let t = w_transport w;
              seq = sequence_counter t;
              w = w\<lparr>w_transport := t\<lparr>sequence_counter := seq + 1\<rparr>\<rparr>
          in if \<not> is_short (fragment_mtu t) channel payload \<and> first_capacity (fragment_mtu t) channel = 0
             then Some w
             else Some (w\<lparr>w_ztask := sending seq (datagrams (fragment_mtu t) seq channel payload)\<rparr>)
      | _ \<Rightarrow> None)"
| "wire_exec is_match valid_ke config me w Emit =
     (case w_ztask w of
        ZSending seq (pkt # pkts) \<Rightarrow>
          Some (w\<lparr>w_flight := w_flight w @ [(me, pkt)], w_ztask := sending seq pkts\<rparr>)
      | _ \<Rightarrow> None)"
| "wire_exec is_match valid_ke config me w EmitFails =
     (case w_ztask w of ZSending seq pkts \<Rightarrow> Some (w\<lparr>w_ztask := ZWaiting\<rparr>) | _ \<Rightarrow> None)"
| "wire_exec is_match valid_ke config me w Store =
     (case w_ztask w of
        ZRecording seq \<Rightarrow> Some (w\<lparr>w_sent := record_sequence (w_sent w) seq, w_ztask := ZWaiting\<rparr>)
      | _ \<Rightarrow> None)"
| "wire_exec is_match valid_ke config me w (Arrive i now now') =
     (if w_ltask w = LReceiving \<and> i < length (w_flight w) \<and> now \<le> now' then
        let (src, pkt) = w_flight w ! i
        in (case recv_iter (w_reassembler w) (Datagram pkt src now now' :: unit incoming) of
              Panic \<Rightarrow> None
            | Ret (r, out) \<Rightarrow>
                Some (w\<lparr>w_reassembler := r, w_flight := without i (w_flight w),
                        w_ltask := (case out of Some (Received msg) \<Rightarrow> LReceived (src = me) msg
                                              | _ \<Rightarrow> LReceiving)\<rparr>))
      else None)"
| "wire_exec is_match valid_ke config me w Handle =
     (case w_ltask w of
        LReceived own msg \<Rightarrow>
          let (seqs, out) = (l2z_handle is_match valid_ke config (w_sent w) msg :: _ \<times> unit l2z_outcome)
          in Some (w\<lparr>w_sent := seqs, w_published := w_published w @ publication own out,
                     w_ltask := LReceiving\<rparr>)
      | LReceiving \<Rightarrow> None)"
| "wire_exec is_match valid_ke config me w (Inject src pkt) =
     Some (w\<lparr>w_flight := w_flight w @ [(src, pkt)]\<rparr>)"
| "wire_exec is_match valid_ke config me w (Discard i) =
     (if i < length (w_flight w) then Some (w\<lparr>w_flight := without i (w_flight w)\<rparr>) else None)"

text \<open>A run while the environment \<open>env\<close> allows every step.\<close>

definition wire_run ::
  "(wire_state \<Rightarrow> wire_action \<Rightarrow> bool) \<Rightarrow> ('re \<Rightarrow> string \<Rightarrow> bool) \<Rightarrow> (string \<Rightarrow> bool) \<Rightarrow> 're Config \<Rightarrow> SocketAddr
     \<Rightarrow> wire_state \<Rightarrow> wire_action list \<Rightarrow> wire_state option"
where
  "wire_run env is_match valid_ke config me = guarded_run env (wire_exec is_match valid_ke config me)"

lemma wire_run_simps [simp]:
  "wire_run env is_match valid_ke config me w [] = Some w"
  "wire_run env is_match valid_ke config me w (a # as) =
     (if env w a then Option.bind (wire_exec is_match valid_ke config me w a)
       (\<lambda>w. wire_run env is_match valid_ke config me w as) else None)"
  by (simp_all add: wire_run_def)

lemmas wire_run_append = guarded_run_append [of _ "wire_exec is_match valid_ke config me", folded wire_run_def]
  for is_match valid_ke config me

text \<open>The environment that allows every step.\<close>

abbreviation anything :: "wire_state \<Rightarrow> wire_action \<Rightarrow> bool" where
  "anything w a \<equiv> True"

section \<open>Events\<close>

text \<open>
  What a run shows of itself, in the terms of both models: which sample is sent with which number
  (when its last datagram is out), that the sending of a number fails, which number is recorded, which
  message of others is received, and which message is handled. Losing a message or a datagram shows
  nothing.
\<close>

datatype event =
    Sends u32 KeyExpr bytes
  | Fails u32
  | Records u32
  | Hears LcmMessage
  | Handles bool LcmMessage

definition bridge_event :: "bridge \<Rightarrow> action \<Rightarrow> event list" where
  "bridge_event s a =
     (case a of
        Send ke payload \<Rightarrow> [Sends (b_counter s) ke payload]
      | FailSend \<Rightarrow> [Fails (b_counter s)]
      | Record \<Rightarrow> (case b_unrecorded s of None \<Rightarrow> [] | Some n \<Rightarrow> [Records n])
      | Foreign m \<Rightarrow> [Hears m]
      | Deliver i \<Rightarrow> [case b_group s ! i of (own, m) \<Rightarrow> Handles own m]
      | Lose i \<Rightarrow> [])"

definition bridge_run_under ::
  "(bridge \<Rightarrow> action \<Rightarrow> bool) \<Rightarrow> ('re \<Rightarrow> string \<Rightarrow> bool) \<Rightarrow> (string \<Rightarrow> bool) \<Rightarrow> 're Config
     \<Rightarrow> bridge \<Rightarrow> action list \<Rightarrow> bridge option"
where
  "bridge_run_under env is_match valid_ke config = guarded_run env (bridge_exec is_match valid_ke config)"

definition bridge_trace ::
  "('re \<Rightarrow> string \<Rightarrow> bool) \<Rightarrow> (string \<Rightarrow> bool) \<Rightarrow> 're Config \<Rightarrow> bridge \<Rightarrow> action list \<Rightarrow> event list" where
  "bridge_trace is_match valid_ke config =
     run_trace (\<lambda>s a s'. bridge_event s a) (bridge_exec is_match valid_ke config)"

text \<open>A state of the datagrams with the sample last taken, which the task holds while it sends.\<close>

type_synonym watched = "(KeyExpr \<times> bytes) \<times> wire_state"

fun watched_exec ::
  "('re \<Rightarrow> string \<Rightarrow> bool) \<Rightarrow> (string \<Rightarrow> bool) \<Rightarrow> 're Config \<Rightarrow> SocketAddr
     \<Rightarrow> watched \<Rightarrow> wire_action \<Rightarrow> watched option"
where
  "watched_exec is_match valid_ke config me (sample, w) a =
     map_option (Pair (case a of Take ke payload \<Rightarrow> (ke, payload) | _ \<Rightarrow> sample))
       (wire_exec is_match valid_ke config me w a)"

fun wire_event :: "watched \<Rightarrow> wire_action \<Rightarrow> watched \<Rightarrow> event list" where
  "wire_event ((ke, payload), w) a (_, w') =
     (case a of
        Emit \<Rightarrow> (case w_ztask w' of ZRecording n \<Rightarrow> [Sends n ke payload] | _ \<Rightarrow> [])
      | EmitFails \<Rightarrow> (case w_ztask w of ZSending n pkts \<Rightarrow> [Fails n] | _ \<Rightarrow> [])
      | Store \<Rightarrow> (case w_ztask w of ZRecording n \<Rightarrow> [Records n] | _ \<Rightarrow> [])
      | Arrive i now now' \<Rightarrow> (case w_ltask w' of LReceived False m \<Rightarrow> [Hears m] | _ \<Rightarrow> [])
      | Handle \<Rightarrow> (case w_ltask w of LReceived own m \<Rightarrow> [Handles own m] | LReceiving \<Rightarrow> [])
      | _ \<Rightarrow> [])"

definition wire_trace ::
  "('re \<Rightarrow> string \<Rightarrow> bool) \<Rightarrow> (string \<Rightarrow> bool) \<Rightarrow> 're Config \<Rightarrow> SocketAddr
     \<Rightarrow> wire_state \<Rightarrow> wire_action list \<Rightarrow> event list"
where
  "wire_trace is_match valid_ke config me w =
     run_trace wire_event (watched_exec is_match valid_ke config me) (([], []), w)"

lemma watched_run:
  "wire_run env is_match valid_ke config me w as = Some w' \<Longrightarrow>
     \<exists>sample'. guarded_run (\<lambda>(_, w). env w) (watched_exec is_match valid_ke config me) (sample, w) as =
       Some (sample', w')"
proof (induction as arbitrary: sample w)
  case Nil
  then show ?case by simp
next
  case (Cons a as)
  then obtain w1 where w1: "env w a" "wire_exec is_match valid_ke config me w a = Some w1"
    "wire_run env is_match valid_ke config me w1 as = Some w'"
    by (auto simp: bind_eq_Some_conv split: if_splits)
  with Cons.IH [OF w1(3), of "case a of Take ke payload \<Rightarrow> (ke, payload) | _ \<Rightarrow> sample"] show ?case by simp
qed

section \<open>Each task on its own\<close>

text \<open>Without the other task in between, the steps of a sample are an iteration of the task's loop,
  and the steps of a round of receiving are a round of the other task's loop.\<close>

lemma emit_all:
  assumes "w_ztask w = sending seq pkts"
  shows "wire_run anything is_match valid_ke config me w (replicate (length pkts) Emit) =
    Some (w\<lparr>w_flight := w_flight w @ map (Pair me) pkts, w_ztask := ZRecording seq\<rparr>)"
  using assms
proof (induction pkts arbitrary: w)
  case Nil
  then show ?case by simp
next
  case (Cons pkt pkts)
  let ?w = "w\<lparr>w_flight := w_flight w @ [(me, pkt)], w_ztask := sending seq pkts\<rparr>"
  have "w_ztask ?w = sending seq pkts" by simp
  from Cons.IH [OF this] Cons.prems show ?case by simp
qed

lemma sample_uninterrupted:
  assumes "z2l_iter is_match (\<lambda>_ _. None :: 'e option) config
      \<lparr>z_transport = w_transport w, z_net = net, z_sent = w_sent w\<rparr> (ke, payload) = Ret (st, Sent seq)"
    and "w_ztask w = ZWaiting"
  shows "\<exists>pkts. wire (z_net st) = wire net @ map (Pair (multicast_addr (w_transport w))) pkts \<and>
    wire_run anything is_match valid_ke config me w (Take ke payload # replicate (length pkts) Emit @ [Store]) =
      Some (w\<lparr>w_transport := z_transport st, w_sent := z_sent st,
        w_flight := w_flight w @ map (Pair me) pkts, w_ztask := ZWaiting\<rparr>)"
proof -
  let ?t = "w_transport w"
  from z2l_sent [OF assms(1)] obtain channel where
    ch: "ke = key_prefix config @ ''/'' @ channel" "channel \<noteq> []" "is_allowed is_match channel config"
    and st: "seq = sequence_counter ?t" "z_transport st = ?t\<lparr>sequence_counter := seq + 1\<rparr>"
      "z_sent st = record_sequence (w_sent w) seq"
    and wire: "wire (z_net st) = wire net @ map (Pair (multicast_addr ?t))
      (datagrams (fragment_mtu ?t) seq channel payload)" by auto
  have sel: "z2l_select is_match config ke = (Inr channel :: unit z2l_outcome + string)"
    "z2l_select is_match config ke = (Inr channel :: 'e z2l_outcome + string)"
    using ch by (simp_all add: z2l_select_Inr_iff)
  obtain t' net' result where send: "send (\<lambda>_ _. None :: 'e option) ?t net channel payload = Ret (t', net', result)"
    using send_extends_wire by blast
  with assms(1) sel(2) have "result = Inr seq" by (cases result) (simp_all add: z2l_iter_def Let_def)
  with send have fits: "is_short (fragment_mtu ?t) channel payload \<or> first_capacity (fragment_mtu ?t) channel \<noteq> 0"
    by (auto simp: send_eq Let_def split: if_splits)
  let ?pkts = "datagrams (fragment_mtu ?t) seq channel payload"
  let ?w = "w\<lparr>w_transport := ?t\<lparr>sequence_counter := seq + 1\<rparr>, w_ztask := sending seq ?pkts\<rparr>"
  have "wire_exec is_match valid_ke config me w (Take ke payload) = Some ?w"
    using assms(2) sel(1) fits st(1) by (auto simp: Let_def)
  moreover have "wire_run anything is_match valid_ke config me ?w (replicate (length ?pkts) Emit) =
      Some (?w\<lparr>w_flight := w_flight ?w @ map (Pair me) ?pkts, w_ztask := ZRecording seq\<rparr>)"
    by (rule emit_all) simp
  ultimately have "wire_run anything is_match valid_ke config me w
      (Take ke payload # replicate (length ?pkts) Emit @ [Store]) =
      Some (w\<lparr>w_transport := z_transport st, w_sent := z_sent st,
        w_flight := w_flight w @ map (Pair me) ?pkts, w_ztask := ZWaiting\<rparr>)"
    using st by (simp add: wire_run_append del: wire_exec.simps(1))
  with wire show ?thesis by blast
qed

text \<open>A datagram with its source and the clock readings of its arrival, as an event of \<open>recv\<close> and as a
  step.\<close>

fun as_event :: "(SocketAddr \<times> bytes) \<times> Instant \<times> Instant \<Rightarrow> unit incoming" where
  "as_event ((src, pkt), now, now') = Datagram pkt src now now'"

fun as_arrival :: "(SocketAddr \<times> bytes) \<times> Instant \<times> Instant \<Rightarrow> wire_action" where
  "as_arrival ((src, pkt), now, now') = Arrive 0 now now'"

lemma without_0 [simp]: "without 0 (x # xs) = xs"
  by (simp add: without_def)

lemma round_uninterrupted:
  assumes "recv (w_reassembler w) (map as_event items) = Ret (r', rest, Received msg)"
    and "w_ltask w = LReceiving" and "w_flight w = map fst items"
    and "list_all (\<lambda>(_, now, now'). now \<le> now') items"
  shows "\<exists>used left own. items = used @ left \<and> rest = map as_event left \<and>
    (\<forall>seqs out. l2z_handle is_match valid_ke config (w_sent w) msg = (seqs, out :: unit l2z_outcome) \<longrightarrow>
      wire_run anything is_match valid_ke config me w (map as_arrival used @ [Handle]) =
        Some (w\<lparr>w_reassembler := r', w_flight := map fst left, w_sent := seqs,
          w_published := w_published w @ publication own out\<rparr>))"
  using assms
proof (induction items arbitrary: w)
  case Nil
  then show ?case by simp
next
  case (Cons item items)
  obtain src pkt now now' where item: "item = ((src, pkt), now, now')" by (metis prod.exhaust)
  let ?ev = "Datagram pkt src now now' :: unit incoming"
  obtain r1 out where it: "recv_iter (w_reassembler w) ?ev = Ret (r1, out)"
    using Cons.prems(1) by (cases "recv_iter (w_reassembler w) ?ev") (auto simp: recv_run_until item)
  let ?w = "w\<lparr>w_reassembler := r1, w_flight := map fst items,
    w_ltask := (case out of Some (Received msg) \<Rightarrow> LReceived (src = me) msg | _ \<Rightarrow> LReceiving)\<rparr>"
  have exec: "wire_exec is_match valid_ke config me w (as_arrival item) = Some ?w"
    using Cons.prems(2-4) it by (simp add: item)
  show ?case
  proof (cases out)
    case None
    with Cons.prems it item have recv: "recv (w_reassembler ?w) (map as_event items) = Ret (r', rest, Received msg)"
      by (simp add: recv_run_until)
    have task: "w_ltask ?w = LReceiving" using None by simp
    have same: "w_sent ?w = w_sent w" "w_published ?w = w_published w" by simp_all
    have flight: "w_flight ?w = map fst items" by simp
    have clocks: "list_all (\<lambda>(_, now, now'). now \<le> now') items" using Cons.prems(4) by simp
    obtain used left own where IH: "items = used @ left" "rest = map as_event left"
      "\<forall>seqs out. l2z_handle is_match valid_ke config (w_sent w) msg = (seqs, out :: unit l2z_outcome) \<longrightarrow>
        wire_run anything is_match valid_ke config me ?w (map as_arrival used @ [Handle]) =
          Some (?w\<lparr>w_reassembler := r', w_flight := map fst left, w_sent := seqs,
            w_published := w_published w @ publication own out\<rparr>)"
      using Cons.IH [OF recv task flight clocks, unfolded same] by blast
    have "?w\<lparr>w_reassembler := r', w_flight := map fst left, w_sent := seqs, w_published := pub\<rparr> =
        w\<lparr>w_reassembler := r', w_flight := map fst left, w_sent := seqs, w_published := pub\<rparr>" for seqs pub
      using None Cons.prems(2) by simp
    with IH exec show ?thesis
      by (intro exI [where x = "item # used"] exI [where x = left] exI [where x = own])
        (simp del: wire_exec.simps as_arrival.simps)
  next
    case (Some res)
    with Cons.prems it item have r: "r' = r1" "rest = map as_event items" "res = Received msg"
      by (simp_all add: recv_run_until)
    from r Some exec Cons.prems(2) show ?thesis
      by (intro exI [where x = "[item]"] exI [where x = items] exI [where x = "src = me"])
        (simp del: wire_exec.simps(5) as_arrival.simps)
  qed
qed

end
