(* ===== verification/Wire_Datagrams.thy ===== *)
theory Wire_Datagrams
  imports Wire_Bridge
begin

text \<open>
  Datagrams of the bridge in flight: which message each belongs to, that the datagrams of a message
  differ, and what an arrival does to the pending set of the message.
\<close>

section \<open>Datagrams in flight and the messages they belong to\<close>

definition seq_of :: "bytes \<Rightarrow> u32 option" where
  "seq_of pkt =
     (case parse_datagram (take MAX_DATAGRAM_SIZE pkt) of
        Some (Some (Short m)) \<Rightarrow> Some (sm_sequence_number m)
      | Some (Some (Frag f)) \<Rightarrow> Some (frag_sequence_number f)
      | _ \<Rightarrow> None)"

definition own_flight :: "SocketAddr \<Rightarrow> wire_state \<Rightarrow> bytes list" where
  "own_flight me w = map snd (filter (\<lambda>(src, _). src = me) (w_flight w))"

definition unsent :: "wire_state \<Rightarrow> bytes list" where
  "unsent w = (case w_ztask w of ZSending seq pkts \<Rightarrow> pkts | _ \<Rightarrow> [])"

definition outstanding :: "SocketAddr \<Rightarrow> wire_state \<Rightarrow> bytes list" where
  "outstanding me w = own_flight me w @ unsent w"

text \<open>A number some of whose datagrams are in flight, or whose message is being handled.\<close>

definition present :: "SocketAddr \<Rightarrow> wire_state \<Rightarrow> u32 \<Rightarrow> bool" where
  "present me w n \<longleftrightarrow> Some n \<in> seq_of ` set (own_flight me w) \<or>
     (case w_ltask w of LReceived own msg \<Rightarrow> own \<and> msg_sequence_number msg = n | LReceiving \<Rightarrow> False)"

type_synonym messages = "u32 \<rightharpoonup> string \<times> bytes"

definition message :: "u32 \<Rightarrow> string \<times> bytes \<Rightarrow> LcmMessage" where
  "message n = (\<lambda>(c, d). \<lparr>msg_channel = c, msg_sequence_number = n, msg_data = d\<rparr>)"

abbreviation mtu_of :: "wire_state \<Rightarrow> usize" where
  "mtu_of w \<equiv> fragment_mtu (w_transport w)"

text \<open>\<open>pkt\<close> is a datagram of the message with number \<open>n\<close>.\<close>

definition belongs :: "messages \<Rightarrow> usize \<Rightarrow> u32 \<Rightarrow> bytes \<Rightarrow> bool" where
  "belongs M mtu n pkt \<longleftrightarrow> (\<exists>c d. M n = Some (c, d) \<and> pkt \<in> set (datagrams mtu n c d))"

definition seen :: "FragmentSet \<Rightarrow> nat set" where
  "seen s = {i. i < length (received_mask s) \<and> received_mask s ! i}"

lemma own_flight_without:
  assumes "i < length (w_flight w)" and "w_flight w ! i = (src, pkt)"
    and "w_flight w' = without i (w_flight w)"
  shows "\<exists>xs ys. own_flight me w = xs @ (if src = me then [pkt] else []) @ ys \<and> own_flight me w' = xs @ ys"
proof -
  obtain ys zs where
    "filter (\<lambda>(src, _). src = me) (w_flight w) = ys @ (if src = me then [(src, pkt)] else []) @ zs"
    "filter (\<lambda>(src, _). src = me) (w_flight w') = ys @ zs"
    using filter_without [OF assms(1), of "\<lambda>(src, _). src = me", folded assms(3), unfolded assms(2)] by auto
  then show ?thesis
    by (intro exI [where x = "map snd ys"] exI [where x = "map snd zs"]) (simp add: own_flight_def)
qed

lemma holds_seen: "holds c d fs R s \<Longrightarrow> R \<subseteq> {..<length fs} \<Longrightarrow> seen s = R"
  by (auto simp: holds_def seen_def)

text \<open>The two kinds of datagram a message has.\<close>

lemma datagram_cases:
  assumes "intact mtu (c, d)" and "pkt \<in> set (datagrams mtu n c d)"
  obtains (short) "is_short mtu c d" "pkt = encode_short_message [] n c d"
    "parse_datagram (take MAX_DATAGRAM_SIZE pkt) =
      Ret (Some (Short \<lparr>sm_sequence_number = n, sm_channel = c, sm_data = d\<rparr>))"
  | (frag) i where "\<not> is_short mtu c d" "fragmentable mtu c d"
    "i < length (sent_fragments mtu n c d)" "pkt = sent_datagrams mtu n c d ! i"
    "parse_datagram (take MAX_DATAGRAM_SIZE pkt) = Ret (Some (Frag (sent_fragments mtu n c d ! i)))"
proof (cases "is_short mtu c d")
  case True
  with assms have "length (encode_short_message [] n c d) \<le> MAX_DATAGRAM_SIZE"
    by (simp add: length_encode_short_message is_short_def intact_def)
  moreover have "pkt = encode_short_message [] n c d" using True assms(2) by (simp add: datagrams_def)
  moreover have "wf_channel c" using assms(1) by (simp add: intact_def)
  ultimately show ?thesis using short [OF True] short_message_roundtrip [of c "[]" n d] by simp
next
  case False
  with assms have fr: "fragmentable mtu c d" "wf_channel c" "mtu \<le> MAX_DATAGRAM_SIZE"
    by (auto simp: intact_def)
  from False assms(2) obtain i where i: "i < length (sent_datagrams mtu n c d)"
    "pkt = sent_datagrams mtu n c d ! i"
    by (auto simp: datagrams_def in_set_conv_nth)
  have "arrival_of (Datagram pkt undefined 0 0 :: unit incoming) =
      Some (sent_fragments mtu n c d ! i, undefined, 0, 0)"
    using arrival_of_sent [OF fr i(1)] i(2) by simp
  then have "parse_datagram (take MAX_DATAGRAM_SIZE pkt) = Ret (Some (Frag (sent_fragments mtu n c d ! i)))"
    by (simp add: arrival_of_def split: option.splits Packet.splits)
  with False fr i show ?thesis by (intro frag) (simp_all add: sent_datagrams_def)
qed

lemma sent_fragment_at:
  assumes "fragmentable mtu c d" and "i < length (sent_fragments mtu n c d)"
  shows "frag_sequence_number (sent_fragments mtu n c d ! i) = n"
    and "unat (frag_fragment_number (sent_fragments mtu n c d ! i)) = i"
  using fragmentation_sent [OF assms(1), of n] assms(2) by (simp_all add: fragmentation_def frag_at_def)

lemma seq_of_datagram:
  assumes "intact mtu (c, d)" and "pkt \<in> set (datagrams mtu n c d)"
  shows "seq_of pkt = Some n"
  using assms
proof (cases rule: datagram_cases)
  case short
  then show ?thesis by (simp add: seq_of_def)
next
  case (frag i)
  with sent_fragment_at(1) [OF frag(2,3)] show ?thesis by (simp add: seq_of_def)
qed

lemma sent_datagrams_inject:
  assumes "intact mtu (c, d)" and "\<not> is_short mtu c d"
    and "i < length (sent_datagrams mtu n c d)" and "j < length (sent_datagrams mtu n c d)"
    and "sent_datagrams mtu n c d ! i = sent_datagrams mtu n c d ! j"
  shows "i = j"
proof -
  from assms(1,2) have fr: "fragmentable mtu c d" "wf_channel c" "mtu \<le> MAX_DATAGRAM_SIZE"
    by (auto simp: intact_def)
  note at = arrival_of_sent [OF fr, where src = undefined and now = 0 and now' = 0 and 'a = unit]
  have "sent_fragments mtu n c d ! i = sent_fragments mtu n c d ! j"
    using at [OF assms(3)] at [OF assms(4)] unfolding assms(5) by simp
  then have "unat (frag_fragment_number (sent_fragments mtu n c d ! i)) =
      unat (frag_fragment_number (sent_fragments mtu n c d ! j))" by (rule arg_cong)
  with assms(3,4) show ?thesis
    by (simp only: sent_fragment_at(2) [OF fr(1)] sent_datagrams_def length_map)
qed

lemma distinct_datagrams: "intact mtu (c, d) \<Longrightarrow> distinct (datagrams mtu n c d)"
  using sent_datagrams_inject [of mtu c d] by (auto simp: datagrams_def distinct_conv_nth)

lemma datagrams_not_Nil: "intact mtu (c, d) \<Longrightarrow> datagrams mtu n c d \<noteq> []"
  using fragmentation_sent [of mtu c d n]
  by (auto simp: datagrams_def intact_def sent_datagrams_def fragmentation_def)

section \<open>The reassembler holds what has arrived\<close>

text \<open>A pending set stands for the fragments that have arrived of a message: some, but not all.\<close>

definition stands_for :: "usize \<Rightarrow> u32 \<Rightarrow> string \<Rightarrow> bytes \<Rightarrow> FragmentSet \<Rightarrow> bool" where
  "stands_for mtu n c d s \<longleftrightarrow> \<not> is_short mtu c d \<and> seen s \<noteq> {} \<and>
     seen s \<subset> {..<length (sent_fragments mtu n c d)} \<and>
     holds c d (sent_fragments mtu n c d) (seen s) s"

definition arrived :: "FragmentReassembler \<Rightarrow> FragmentKey \<Rightarrow> nat set" where
  "arrived r key = (case pending r key of None \<Rightarrow> {} | Some s \<Rightarrow> seen s)"

lemma expire_stale_idem [simp]: "expire_stale (expire_stale r now) now = expire_stale r now"
  by (simp add: expire_stale_def fun_eq_iff split: option.split)

lemma process_expired:
  "reassembler_ok r \<Longrightarrow> process (expire_stale r now) f sender now now' = process r f sender now now'"
  by (simp add: process_eq reassembler_ok_expire_stale)

lemma process_others:
  assumes "reassembler_ok r" and "process r f sender now now' = Ret (r', out)"
    and "key \<noteq> key_of f sender"
  shows "pending r' key = None \<or> pending r' key = pending r key"
proof -
  have "pending r' key = pending (expire_stale r now) key"
    using assms by (auto simp: process_eq split: if_splits)
  then show ?thesis by (simp add: expire_stale_def split: option.split)
qed

lemma sim_stands_for:
  assumes "sim (sender, n) c d (sent_fragments mtu n c d) t0 r R" and "\<not> is_short mtu c d"
  shows "arrived r (sender, n) = R"
    and "\<And>s. pending r (sender, n) = Some s \<Longrightarrow> stands_for mtu n c d s"
  using assms by (auto simp: sim_def arrived_def stands_for_def holds_seen psubset_imp_subset split: option.splits)

lemma arrived_expire_stale: "arrived (expire_stale r now) key \<subseteq> arrived r key"
  by (auto simp: arrived_def expire_stale_def split: option.splits if_splits)

text \<open>A datagram of a fragmented message arrives.\<close>

lemma fragment_arrives:
  assumes ok: "reassembler_ok r" and frag: "fragmentable mtu c d" "\<not> is_short mtu c d"
    and i: "i < length (sent_fragments mtu n c d)" and "now \<le> now'"
    and set: "\<And>s. pending r (sender, n) = Some s \<Longrightarrow> stands_for mtu n c d s"
  shows "\<exists>r' out. process r (sent_fragments mtu n c d ! i) sender now now' = Ret (r', out) \<and>
    (\<forall>s. pending r' (sender, n) = Some s \<longrightarrow> stands_for mtu n c d s) \<and>
    arrived r' (sender, n) \<subseteq> insert i (arrived r (sender, n)) \<and>
    (out \<noteq> None \<longrightarrow> out = Some (message n (c, d)) \<and> pending r' (sender, n) = None \<and>
      insert i (arrived r (sender, n)) = {..<length (sent_fragments mtu n c d)})"
proof -
  let ?fs = "sent_fragments mtu n c d" and ?key = "(sender, n)"
  define r1 where "r1 = expire_stale r now"
  have r1: "reassembler_ok r1" "process r (?fs ! i) sender now now' = process r1 (?fs ! i) sender now now'"
    "pending r1 ?key = Some s \<Longrightarrow> stands_for mtu n c d s \<and> now \<le> created_at s + timeout r" for s
    using ok set by (auto simp: r1_def reassembler_ok_expire_stale process_expired pending_expire_stale
        duration_since_def split: if_splits)
  have frags: "fragmentation n c d ?fs" using frag(1) by (rule fragmentation_sent)
  have size: "unat (frag_payload_size (?fs ! i)) = length d"
    using frags i by (simp add: fragmentation_def frag_at_def)
  have le: "arrived r1 ?key \<subseteq> arrived r ?key" by (simp add: r1_def arrived_expire_stale)
  show ?thesis
  proof (cases "length d \<le> max_message_size r")
    case False
    then have "process r (?fs ! i) sender now now' = Ret (r1, None)"
      by (simp add: process_eq [OF ok] size r1_def)
    with r1(3) le show ?thesis by auto
  next
    case True
    define t0 where "t0 = (case pending r1 ?key of None \<Rightarrow> now' | Some s \<Rightarrow> min (created_at s) now')"
    have t0: "now \<le> t0 + timeout r1" "t0 \<le> now'"
      using r1(3) assms(5) by (auto simp: t0_def r1_def min_def split: option.splits)
    have sim: "sim ?key c d ?fs t0 r1 (arrived r1 ?key)"
      using r1(3) i by (auto simp: sim_def arrived_def t0_def stands_for_def split: option.splits)
    have "length d \<le> max_message_size r1" using True by (simp add: r1_def)
    from sim_own_step [OF r1(1) frags sim i this t0] obtain r' where
      step: "process r (?fs ! i) sender now now' =
        Ret (r', delivered n c d (snd (seen_step (length ?fs) (arrived r1 ?key) i)))"
      and sim': "sim ?key c d ?fs t0 r' (fst (seen_step (length ?fs) (arrived r1 ?key) i))"
      using r1(2) by auto
    note st = sim_stands_for [OF sim' frag(2)]
    show ?thesis
    proof (cases "snd (seen_step (length ?fs) (arrived r1 ?key) i)")
      case True
      then have new: "i \<notin> arrived r1 ?key" "insert i (arrived r1 ?key) = {..<length ?fs}"
        by (auto simp: seen_step_def split: if_splits)
      then have none: "arrived r' ?key = {}" using st(1) by (simp add: seen_step_def)
      then have "pending r' ?key = None"
        using st(2) by (auto simp: arrived_def stands_for_def split: option.splits)
      moreover have "insert i (arrived r ?key) = {..<length ?fs}"
      proof -
        have "arrived r ?key \<subseteq> {..<length ?fs}"
          using set by (auto simp: arrived_def stands_for_def split: option.splits)
        with new(2) le i show ?thesis by auto
      qed
      ultimately show ?thesis
        using step st(2) True none by (auto simp: delivered_def message_def)
    next
      case False
      then have "arrived r' ?key \<subseteq> insert i (arrived r1 ?key)"
        using st(1) by (auto simp: seen_step_def split: if_splits)
      with False le step st(2) show ?thesis by (auto simp: delivered_def)
    qed
  qed
qed

end
