(* ===== verification/Wire_Simulation.thy ===== *)
theory Wire_Simulation
  imports Wire_Datagrams
begin

text \<open>
  The relation between the states of the datagram-level tasks and those of the message-level model
  \<open>Bridge\<close>, and that every step of the former is simulated by steps of the latter: the last datagram
  sent is the send of the message, a foreign message enters the group when its last datagram arrives,
  and a message one of whose datagrams is lost is lost.
\<close>

section \<open>The relation between the two models\<close>

definition links :: "wire_state \<Rightarrow> bridge \<Rightarrow> bool" where
  "links w b \<longleftrightarrow> b_sent b = w_sent w \<and> b_published b = w_published w \<and>
     b_counter b = (case w_ztask w of ZSending n pkts \<Rightarrow> n | _ \<Rightarrow> sequence_counter (w_transport w)) \<and>
     b_unrecorded b = (case w_ztask w of ZRecording n \<Rightarrow> Some n | _ \<Rightarrow> None)"

text \<open>\<open>M\<close> maps each number to the message last sent with it. The pending set of a message holds none
  of the datagrams that are still to arrive.\<close>

definition pending_ok :: "messages \<Rightarrow> usize \<Rightarrow> SocketAddr \<Rightarrow> FragmentReassembler \<Rightarrow> bytes set \<Rightarrow> bool" where
  "pending_ok M mtu me r pkts \<longleftrightarrow> (\<forall>n s. pending r (me, n) = Some s \<longrightarrow>
     (\<exists>c d. M n = Some (c, d) \<and> stands_for mtu n c d s \<and>
       (\<forall>i \<in> seen s. sent_datagrams mtu n c d ! i \<notin> pkts)))"

definition data_ok ::
  "('re \<Rightarrow> string \<Rightarrow> bool) \<Rightarrow> 're Config \<Rightarrow> messages \<Rightarrow> SocketAddr \<Rightarrow> wire_state \<Rightarrow> bool" where
  "data_ok is_match config M me w \<longleftrightarrow> reassembler_ok (w_reassembler w) \<and>
     (\<forall>n c d. M n = Some (c, d) \<longrightarrow> intact (mtu_of w) (c, d) \<and>
       z2l_select is_match config (key_prefix config @ ''/'' @ c) = (Inr c :: unit z2l_outcome + string)) \<and>
     (\<forall>pkt \<in> set (outstanding me w). \<exists>n. belongs M (mtu_of w) n pkt) \<and>
     distinct (outstanding me w) \<and>
     pending_ok M (mtu_of w) me (w_reassembler w) (set (outstanding me w))"

text \<open>\<open>cur\<close> is the sample last taken: while its datagrams are being sent, \<open>M\<close> holds its message.\<close>

definition sending_ok ::
  "'re Config \<Rightarrow> messages \<Rightarrow> KeyExpr \<times> bytes \<Rightarrow> wire_state \<Rightarrow> bridge \<Rightarrow> bool" where
  "sending_ok config M cur w b \<longleftrightarrow> (case w_ztask w of
       ZSending n pkts \<Rightarrow> pkts \<noteq> [] \<and> sequence_counter (w_transport w) = n + 1 \<and>
         (\<forall>pkt \<in> set pkts. belongs M (mtu_of w) n pkt) \<and> n \<notin> set (own_seqs b) \<and>
         (\<forall>c d. M n = Some (c, d) \<longrightarrow> cur = (key_prefix config @ ''/'' @ c, d))
     | _ \<Rightarrow> True)"

definition handled_ok :: "SocketAddr \<Rightarrow> wire_state \<Rightarrow> bridge \<Rightarrow> bool" where
  "handled_ok me w b \<longleftrightarrow> (case w_ltask w of
       LReceived own m \<Rightarrow> (own, m) \<in> set (b_group b) \<and>
         (own \<longrightarrow> pending (w_reassembler w) (me, msg_sequence_number m) = None \<and>
           (\<forall>pkt \<in> set (outstanding me w). seq_of pkt \<noteq> Some (msg_sequence_number m)))
     | LReceiving \<Rightarrow> True)"

text \<open>No datagram of the message is lost: each is in flight or has arrived.\<close>

definition alive :: "messages \<Rightarrow> SocketAddr \<Rightarrow> wire_state \<Rightarrow> u32 \<Rightarrow> bool" where
  "alive M me w n \<longleftrightarrow> (\<exists>c d. M n = Some (c, d) \<and>
     (\<forall>pkt \<in> set (datagrams (mtu_of w) n c d). pkt \<in> set (own_flight me w) \<or>
       (\<exists>i \<in> arrived (w_reassembler w) (me, n). pkt = sent_datagrams (mtu_of w) n c d ! i)))"

definition group_ok :: "messages \<Rightarrow> SocketAddr \<Rightarrow> wire_state \<Rightarrow> bridge \<Rightarrow> bool" where
  "group_ok M me w b \<longleftrightarrow>
     (\<forall>n. alive M me w n \<longrightarrow> (True, message n (the (M n))) \<in> set (b_group b))"

definition wire_inv ::
  "('re \<Rightarrow> string \<Rightarrow> bool) \<Rightarrow> 're Config \<Rightarrow> messages \<Rightarrow> SocketAddr \<Rightarrow> KeyExpr \<times> bytes \<Rightarrow> wire_state \<Rightarrow> bridge
     \<Rightarrow> bool" where
  "wire_inv is_match config M me cur w b \<longleftrightarrow> data_ok is_match config M me w \<and> links w b \<and>
     sending_ok config M cur w b \<and> handled_ok me w b \<and> group_ok M me w b"

definition tidy :: "SocketAddr \<Rightarrow> wire_state \<Rightarrow> bridge \<Rightarrow> bool" where
  "tidy me w b \<longleftrightarrow> (\<forall>n \<in> set (own_seqs b). present me w n)"

section \<open>Facts from the relation\<close>

lemma in_own_seqs: "(True, m) \<in> set (b_group b) \<Longrightarrow> msg_sequence_number m \<in> set (own_seqs b)"
  by (force simp: own_seqs_def)

lemma data_okD:
  assumes "data_ok is_match config M me w"
  shows "reassembler_ok (w_reassembler w)"
    and "M n = Some (c, d) \<Longrightarrow> intact (mtu_of w) (c, d)"
    and "M n = Some (c, d) \<Longrightarrow>
      z2l_select is_match config (key_prefix config @ ''/'' @ c) = (Inr c :: unit z2l_outcome + string)"
    and "pkt \<in> set (outstanding me w) \<Longrightarrow> \<exists>n. belongs M (mtu_of w) n pkt"
    and "distinct (outstanding me w)"
    and "pending_ok M (mtu_of w) me (w_reassembler w) (set (outstanding me w))"
  using assms unfolding data_ok_def by blast+

lemma belongs_seq:
  assumes "data_ok is_match config M me w" and "belongs M (mtu_of w) n pkt"
  shows "seq_of pkt = Some n"
proof -
  from assms(2) obtain c d where M: "M n = Some (c, d)" and "pkt \<in> set (datagrams (mtu_of w) n c d)"
    by (auto simp: belongs_def)
  with seq_of_datagram [OF data_okD(2) [OF assms(1) M]] show ?thesis by simp
qed

lemma outstanding_belongs:
  assumes "data_ok is_match config M me w" and "pkt \<in> set (outstanding me w)" and "seq_of pkt = Some n"
  shows "belongs M (mtu_of w) n pkt"
proof -
  obtain n' where n': "belongs M (mtu_of w) n' pkt" using data_okD(4) [OF assms(1,2)] by blast
  with belongs_seq [OF assms(1) this] assms(3) show ?thesis by simp
qed

lemma arrived_in_range:
  assumes "data_ok is_match config M me w" and "M n = Some (c, d)"
    and "i \<in> arrived (w_reassembler w) (me, n)"
  shows "\<not> is_short (mtu_of w) c d" "i < length (sent_datagrams (mtu_of w) n c d)"
    "sent_datagrams (mtu_of w) n c d ! i \<notin> set (outstanding me w)"
    "arrived (w_reassembler w) (me, n) \<noteq> {..<length (sent_datagrams (mtu_of w) n c d)}"
  using assms by (fastforce simp: data_ok_def pending_ok_def arrived_def stands_for_def sent_datagrams_def
      split: option.splits)+

text \<open>A message none of whose datagrams is lost has one in flight.\<close>

lemma alive_present:
  assumes ok: "data_ok is_match config M me w" and alive: "alive M me w n"
  shows "Some n \<in> seq_of ` set (own_flight me w)"
proof -
  from alive obtain c d where M: "M n = Some (c, d)"
    and all: "\<And>pkt. pkt \<in> set (datagrams (mtu_of w) n c d) \<Longrightarrow> pkt \<in> set (own_flight me w) \<or>
      (\<exists>i \<in> arrived (w_reassembler w) (me, n). pkt = sent_datagrams (mtu_of w) n c d ! i)"
    by (auto simp: alive_def)
  have intact: "intact (mtu_of w) (c, d)" using data_okD(2) [OF ok M] .
  have "\<exists>pkt \<in> set (datagrams (mtu_of w) n c d). pkt \<in> set (own_flight me w)"
  proof (rule ccontr)
    assume "\<not> ?thesis"
    with all have gone: "\<exists>i \<in> arrived (w_reassembler w) (me, n). pkt = sent_datagrams (mtu_of w) n c d ! i"
      if "pkt \<in> set (datagrams (mtu_of w) n c d)" for pkt
      using that by blast
    then obtain i where i: "i \<in> arrived (w_reassembler w) (me, n)"
      using datagrams_not_Nil [OF intact, of n] by (metis list.set_intros(1) neq_Nil_conv)
    note range = arrived_in_range [OF ok M]
    have "j \<in> arrived (w_reassembler w) (me, n)" if j: "j < length (sent_datagrams (mtu_of w) n c d)" for j
    proof -
      from gone [of "sent_datagrams (mtu_of w) n c d ! j"] j range(1) [OF i] obtain k where
        k: "k \<in> arrived (w_reassembler w) (me, n)"
          "sent_datagrams (mtu_of w) n c d ! j = sent_datagrams (mtu_of w) n c d ! k"
        by (auto simp: datagrams_def)
      with sent_datagrams_inject [OF intact range(1) [OF i] j range(2) [OF k(1)] k(2)] show ?thesis by simp
    qed
    with range(2,4) [OF i] range(2) show False by blast
  qed
  with seq_of_datagram [OF intact] show ?thesis by force
qed

section \<open>Forgetting messages that cannot arrive\<close>

text \<open>The runs of messages that show the events \<open>tr\<close> and end in \<open>b\<close>.\<close>

definition group_run ::
  "bool \<Rightarrow> ('re \<Rightarrow> string \<Rightarrow> bool) \<Rightarrow> (string \<Rightarrow> bool) \<Rightarrow> 're Config \<Rightarrow> event list \<Rightarrow> bridge \<Rightarrow> bool" where
  "group_run strict is_match valid_ke config tr b \<longleftrightarrow>
     (\<exists>bs. bridge_run_under (\<lambda>s a. strict \<longrightarrow> orderly s a) is_match valid_ke config bridge_init bs = Some b \<and>
       bridge_trace is_match valid_ke config bridge_init bs = tr)"

lemma group_run_init: "group_run strict is_match valid_ke config [] bridge_init"
  unfolding group_run_def by (intro exI [where x = "[]"]) (simp add: bridge_run_under_def bridge_trace_def)

lemma group_run_step:
  assumes "group_run strict is_match valid_ke config tr b"
    and "bridge_exec is_match valid_ke config b a = Some b'" and "strict \<Longrightarrow> orderly b a"
  shows "group_run strict is_match valid_ke config (tr @ bridge_event b a) b'"
proof -
  from assms(1) obtain bs where
    "bridge_run_under (\<lambda>s a. strict \<longrightarrow> orderly s a) is_match valid_ke config bridge_init bs = Some b"
    "bridge_trace is_match valid_ke config bridge_init bs = tr" by (auto simp: group_run_def)
  with assms(2,3) show ?thesis
    unfolding group_run_def bridge_run_under_def bridge_trace_def
    by (intro exI [where x = "bs @ [a]"]) (simp add: guarded_run_append run_trace_append)
qed

lemma group_run_reachable:
  assumes "group_run True is_match valid_ke config tr b"
  shows "reachable orderly is_match valid_ke config b"
proof -
  from assms obtain bs where "bridge_run_under orderly is_match valid_ke config bridge_init bs = Some b"
    by (auto simp: group_run_def)
  moreover have "reachable orderly is_match valid_ke config b'" if
    "reachable orderly is_match valid_ke config b" "bridge_run_under orderly is_match valid_ke config b bs = Some b'"
    for b b' bs
    using that
    by (induction bs arbitrary: b)
      (auto simp: bridge_run_under_def bind_eq_Some_conv split: if_splits
        intro: reachable.step [OF _ _ bridge_step_exec [THEN iffD2]])
  ultimately show ?thesis using reachable.init by blast
qed

lemma group_run_forget:
  assumes "group_run strict is_match valid_ke config tr b" and "b_group b = xs @ ys"
  shows "group_run strict is_match valid_ke config tr (b\<lparr>b_group := filter P xs @ ys\<rparr>)"
  using assms
proof (induction xs arbitrary: b ys rule: rev_induct)
  case Nil
  then have "b\<lparr>b_group := ys\<rparr> = b" by (cases b) simp
  with Nil.prems(1) show ?case by (simp only: filter.simps append_Nil)
next
  case (snoc x xs)
  show ?case
  proof (cases "P x")
    case True
    with snoc.IH [OF snoc.prems(1), of "x # ys"] snoc.prems(2) show ?thesis by simp
  next
    case False
    have "bridge_exec is_match valid_ke config b (Lose (length xs)) = Some (b\<lparr>b_group := xs @ ys\<rparr>)"
      using snoc.prems(2) by (simp add: without_def)
    from group_run_step [OF snoc.prems(1) this] have
      "group_run strict is_match valid_ke config tr (b\<lparr>b_group := xs @ ys\<rparr>)"
      by (simp add: orderly_def bridge_event_def)
    from snoc.IH [OF this, of ys] False show ?thesis by simp
  qed
qed

lemma wire_inv_tidy:
  assumes "group_run strict is_match valid_ke config tr b" and "wire_inv is_match config M me cur w b"
  shows "\<exists>b'. group_run strict is_match valid_ke config tr b' \<and> wire_inv is_match config M me cur w b' \<and> tidy me w b'"
proof -
  define P :: "bool \<times> LcmMessage \<Rightarrow> bool" where "P = (\<lambda>(own, m). own \<longrightarrow> present me w (msg_sequence_number m))"
  let ?b = "b\<lparr>b_group := filter P (b_group b)\<rparr>"
  have "group_run strict is_match valid_ke config tr ?b"
    using group_run_forget [OF assms(1), of "b_group b" "[]" P] by simp
  moreover have "wire_inv is_match config M me cur w ?b"
  proof -
    have ok: "data_ok is_match config M me w" using assms(2) by (simp add: wire_inv_def)
    have "set (own_seqs ?b) \<subseteq> set (own_seqs b)" by (auto simp: own_seqs_def)
    moreover have "(own, m) \<in> set (b_group ?b)"
      if "w_ltask w = LReceived own m" "(own, m) \<in> set (b_group b)" for own m
      using that by (auto simp: P_def present_def)
    moreover have "(True, message n (the (M n))) \<in> set (b_group ?b)"
      if "alive M me w n" "(True, message n (the (M n))) \<in> set (b_group b)" for n
      using that alive_present [OF ok that(1)] by (auto simp: P_def present_def message_def split: prod.split)
    ultimately show ?thesis
      using assms(2) by (auto simp: wire_inv_def links_def sending_ok_def handled_ok_def group_ok_def
          split: z2l_task.splits l2z_task.splits)
  qed
  moreover have "tidy me w ?b" by (auto simp: tidy_def own_seqs_def P_def)
  ultimately show ?thesis by blast
qed

section \<open>The environment\<close>

text \<open>
  What is asked of the network and of the samples: messages are carried without loss by \<open>send\<close>, their
  number belongs to no datagram in flight, no message being handled and no pending set, and nobody
  else sends from the bridge's address (which another transport of the same host would, see
  \<open>Local_Senders\<close>). As no step adds a copy of a datagram, the network does not
  duplicate.
\<close>

definition faithful ::
  "('re \<Rightarrow> string \<Rightarrow> bool) \<Rightarrow> 're Config \<Rightarrow> SocketAddr \<Rightarrow> wire_state \<Rightarrow> wire_action \<Rightarrow> bool" where
  "faithful is_match config me w a =
     (case a of
        Take ke payload \<Rightarrow>
          (case z2l_select is_match config ke :: unit z2l_outcome + string of
             Inl skipped \<Rightarrow> True
           | Inr channel \<Rightarrow>
               let n = sequence_counter (w_transport w)
               in intact (mtu_of w) (channel, payload) \<and> \<not> present me w n \<and>
                  pending (w_reassembler w) (me, n) = None)
      | Inject src pkt \<Rightarrow> src \<noteq> me
      | _ \<Rightarrow> True)"

text \<open>What loop prevention asks besides, of single datagrams: \<open>orderly\<close> of the message-level model.\<close>

definition wire_orderly :: "SocketAddr \<Rightarrow> wire_state \<Rightarrow> wire_action \<Rightarrow> bool" where
  "wire_orderly me w a =
     (case a of
        Store \<Rightarrow> (\<forall>n. w_ztask w = ZRecording n \<longrightarrow> (\<forall>q. present me w q \<longrightarrow> unat n \<le> unat q + 5000))
      | Handle \<Rightarrow>
          (case w_ltask w of
             LReceived True m \<Rightarrow> w_ztask w \<noteq> ZRecording (msg_sequence_number m)
           | LReceived False m \<Rightarrow> msg_sequence_number m \<notin> w_sent w
           | LReceiving \<Rightarrow> True)
      | _ \<Rightarrow> True)"

section \<open>Steps of the sending task\<close>

lemma data_ok_shrink:
  assumes "data_ok is_match config M me w"
    and "w_reassembler w' = w_reassembler w" "mtu_of w' = mtu_of w"
    and "set (outstanding me w') \<subseteq> set (outstanding me w)" "distinct (outstanding me w')"
  shows "data_ok is_match config M me w'"
proof -
  note ok = data_okD [OF assms(1)]
  have "pending_ok M (mtu_of w) me (w_reassembler w) (set (outstanding me w'))"
    using ok(6) assms(4) unfolding pending_ok_def by (meson subsetD)
  moreover have "\<forall>pkt \<in> set (outstanding me w'). \<exists>n. belongs M (mtu_of w) n pkt"
    using ok(4) assms(4) by blast
  ultimately show ?thesis
    using ok(1-3) assms(5) unfolding data_ok_def assms(2,3) by blast
qed

lemma alive_shrink:
  assumes "alive M me w' n" and "w_reassembler w' = w_reassembler w" "mtu_of w' = mtu_of w"
    and "set (own_flight me w') \<subseteq> set (own_flight me w)"
  shows "alive M me w n"
  using assms(1,4) unfolding alive_def assms(2,3) by (meson subsetD)

lemma sending_nonempty: "pkts \<noteq> [] \<Longrightarrow> sending n pkts = ZSending n pkts"
  by (cases pkts) simp_all

text \<open>A new number: its datagrams are unsent, and none of an earlier message with it is about.\<close>

lemma data_ok_new:
  assumes ok: "data_ok is_match config M me w" and intact: "intact (mtu_of w) (c, d)"
    and select: "z2l_select is_match config (key_prefix config @ ''/'' @ c) = (Inr c :: unit z2l_outcome + string)"
    and new: "\<And>pkt. pkt \<in> set (own_flight me w) \<Longrightarrow> seq_of pkt \<noteq> Some n" "pending (w_reassembler w) (me, n) = None"
    and out: "outstanding me w = own_flight me w" "outstanding me w' = own_flight me w @ datagrams (mtu_of w) n c d"
    and same: "w_reassembler w' = w_reassembler w" "mtu_of w' = mtu_of w"
  shows "data_ok is_match config (M(n \<mapsto> (c, d))) me w'"
  unfolding data_ok_def
proof (intro conjI allI impI ballI)
  fix q c' d'
  assume "(M(n \<mapsto> (c, d))) q = Some (c', d')"
  then show "intact (mtu_of w') (c', d')"
    "z2l_select is_match config (key_prefix config @ ''/'' @ c') = (Inr c' :: unit z2l_outcome + string)"
    using intact select data_okD(2,3) [OF ok, of q c' d'] by (auto simp: same split: if_splits)
next
  fix pkt
  assume "pkt \<in> set (outstanding me w')"
  then consider "pkt \<in> set (own_flight me w)" | "pkt \<in> set (datagrams (mtu_of w) n c d)" by (auto simp: out)
  then show "\<exists>q. belongs (M(n \<mapsto> (c, d))) (mtu_of w') q pkt"
  proof cases
    case 1
    then obtain q where q: "belongs M (mtu_of w) q pkt" using data_okD(4) [OF ok] out(1) by metis
    with new(1) [OF 1] belongs_seq [OF ok q] have "q \<noteq> n" by auto
    with q show ?thesis unfolding belongs_def same by auto
  next
    case 2
    then show ?thesis unfolding belongs_def same by auto
  qed
next
  show "distinct (outstanding me w')"
    using data_okD(5) [OF ok] distinct_datagrams [OF intact] seq_of_datagram [OF intact] new(1) by (auto simp: out)
next
  have "sent_datagrams (mtu_of w) q c' d' ! i \<notin> set (datagrams (mtu_of w) n c d)"
    if q: "M q = Some (c', d')" "q \<noteq> n" and s: "stands_for (mtu_of w) q c' d' s" "i \<in> seen s" for q c' d' s i
  proof -
    have "sent_datagrams (mtu_of w) q c' d' ! i \<in> set (datagrams (mtu_of w) q c' d')"
      using s by (auto simp: stands_for_def datagrams_def sent_datagrams_def)
    from seq_of_datagram [OF data_okD(2) [OF ok q(1)] this] seq_of_datagram [OF intact] q(2) show ?thesis by auto
  qed
  moreover have "q \<noteq> n" if "pending (w_reassembler w) (me, q) = Some s" for q s using that new(2) by auto
  ultimately show "pending_ok (M(n \<mapsto> (c, d))) (mtu_of w') me (w_reassembler w') (set (outstanding me w'))"
    using data_okD(6) [OF ok] unfolding pending_ok_def same out set_append by (metis Un_iff fun_upd_apply)
qed (use data_okD(1) [OF ok] same in simp)

lemma step_take:
  assumes inv: "wire_inv is_match config M me cur w b" and tidy: "tidy me w b"
    and exec: "wire_exec is_match valid_ke config me w (Take ke payload) = Some w'"
    and env: "faithful is_match config me w (Take ke payload)"
  shows "\<exists>M'. wire_inv is_match config M' me (ke, payload) w' b"
proof (cases "z2l_select is_match config ke :: unit z2l_outcome + string")
  case (Inl skipped)
  with exec have "w' = w" "w_ztask w = ZWaiting" by (auto split: z2l_task.splits)
  with inv have "wire_inv is_match config M me (ke, payload) w' b"
    by (simp add: wire_inv_def sending_ok_def)
  then show ?thesis by blast
next
  case (Inr channel)
  define n where "n = sequence_counter (w_transport w)"
  define pkts where "pkts = datagrams (mtu_of w) n channel payload"
  let ?M = "M(n \<mapsto> (channel, payload))"
  from env Inr have intact: "intact (mtu_of w) (channel, payload)" and new: "\<not> present me w n"
    "pending (w_reassembler w) (me, n) = None" by (simp_all add: faithful_def Let_def n_def)
  have pkts: "pkts \<noteq> []" "\<And>pkt. pkt \<in> set pkts \<Longrightarrow> seq_of pkt = Some n"
    using datagrams_not_Nil [OF intact] seq_of_datagram [OF intact] by (simp_all add: pkts_def)
  have fits: "\<not> (\<not> is_short (mtu_of w) channel payload \<and> first_capacity (mtu_of w) channel = 0)"
    using intact by (auto simp: intact_def fragmentable_def)
  have wait: "w_ztask w = ZWaiting" using exec by (auto split: z2l_task.splits)
  have w': "w' = w\<lparr>w_transport := (w_transport w)\<lparr>sequence_counter := n + 1\<rparr>, w_ztask := ZSending n pkts\<rparr>"
    using exec Inr wait fits pkts(1) by (auto simp: Let_def n_def pkts_def sending_nonempty)
  have flight: "own_flight me w' = own_flight me w" "mtu_of w' = mtu_of w"
    "w_reassembler w' = w_reassembler w" "w_ltask w' = w_ltask w" by (simp_all add: w' own_flight_def)
  have ke: "ke = key_prefix config @ ''/'' @ channel" using Inr by (simp add: z2l_select_Inr_iff)
  have out: "outstanding me w = own_flight me w" "outstanding me w' = own_flight me w @ pkts"
    using wait by (simp_all add: outstanding_def unsent_def w' own_flight_def)
  from inv have ok: "data_ok is_match config M me w" by (simp add: wire_inv_def)
  have other: "seq_of pkt \<noteq> Some n" if "pkt \<in> set (own_flight me w)" for pkt
    using new(1) that by (force simp: present_def)
  have "z2l_select is_match config (key_prefix config @ ''/'' @ channel) =
      (Inr channel :: unit z2l_outcome + string)"
    using Inr by (auto simp: z2l_select_Inr_iff)
  from data_ok_new [OF ok intact this other new(2) out(1) out(2) [unfolded pkts_def] flight(3,2)]
  have ok': "data_ok is_match config ?M me w'" .
  moreover have "links w' b" using inv wait by (simp add: wire_inv_def links_def w' n_def)
  moreover have "sending_ok config ?M (ke, payload) w' b"
    using pkts(1) new(1) tidy by (auto simp: sending_ok_def w' tidy_def belongs_def pkts_def ke)
  moreover have "handled_ok me w' b"
    using inv new(1) pkts(2)
    by (auto simp: wire_inv_def handled_ok_def out flight present_def split: l2z_task.splits)
  moreover have "group_ok ?M me w' b"
    unfolding group_ok_def
  proof (intro allI impI)
    fix q
    assume alive: "alive ?M me w' q"
    from alive_present [OF ok' alive] other have "q \<noteq> n" by (metis flight(1) image_iff)
    with alive have "alive M me w q" by (simp add: alive_def flight)
    with inv \<open>q \<noteq> n\<close> show "(True, message q (the (?M q))) \<in> set (b_group b)"
      by (simp add: wire_inv_def group_ok_def)
  qed
  ultimately show ?thesis by (auto simp: wire_inv_def)
qed

text \<open>While a datagram of the message is unsent the message is not in the group, and its last datagram
  puts it there.\<close>

lemma unsent_not_alive:
  assumes "data_ok is_match config M me w" and "w_ztask w = ZSending n pkts" and "pkts \<noteq> []"
    and "\<forall>pkt \<in> set pkts. belongs M (mtu_of w) n pkt"
  shows "\<not> alive M me w n"
proof
  assume alive: "alive M me w n"
  from alive obtain c d where M: "M n = Some (c, d)"
    and all: "\<And>pkt. pkt \<in> set (datagrams (mtu_of w) n c d) \<Longrightarrow> pkt \<in> set (own_flight me w) \<or>
      (\<exists>i \<in> arrived (w_reassembler w) (me, n). pkt = sent_datagrams (mtu_of w) n c d ! i)"
    by (auto simp: alive_def)
  have pkt: "hd pkts \<in> set pkts" using assms(3) by simp
  with assms(4) M have "hd pkts \<in> set (datagrams (mtu_of w) n c d)" by (auto simp: belongs_def)
  moreover have "hd pkts \<in> set (outstanding me w)" "hd pkts \<notin> set (own_flight me w)"
    using data_okD(5) [OF assms(1)] pkt assms(2) by (auto simp: outstanding_def unsent_def)
  ultimately obtain i where "i \<in> arrived (w_reassembler w) (me, n)"
    "sent_datagrams (mtu_of w) n c d ! i \<in> set (outstanding me w)"
    using all [of "hd pkts"] by auto
  with arrived_in_range(3) [OF assms(1) M] show False by simp
qed

lemma emitted:
  assumes inv: "wire_inv is_match config M me cur w b" and task: "w_ztask w = ZSending n (pkt # pkts)"
    and w': "w' = w\<lparr>w_flight := w_flight w @ [(me, pkt)], w_ztask := sending n pkts\<rparr>"
  shows "outstanding me w' = outstanding me w" and "data_ok is_match config M me w'"
    and "q \<noteq> n \<Longrightarrow> alive M me w' q \<Longrightarrow> alive M me w q" and "handled_ok me w' b"
    and "sequence_counter (w_transport w) = n + 1" "n \<notin> set (own_seqs b)" "b_counter b = n" "b_unrecorded b = None"
    and "belongs M (mtu_of w) n pkt" "\<forall>pkt \<in> set pkts. belongs M (mtu_of w) n pkt"
    and "\<And>c d. M n = Some (c, d) \<Longrightarrow> cur = (key_prefix config @ ''/'' @ c, d)"
proof -
  have flight: "own_flight me w' = own_flight me w @ [pkt]" "w_transport w' = w_transport w"
    "w_reassembler w' = w_reassembler w" "w_ltask w' = w_ltask w"
    by (simp_all add: w' own_flight_def)
  have uns: "unsent w' = pkts" by (cases pkts) (simp_all add: w' unsent_def)
  show same: "outstanding me w' = outstanding me w"
    using task by (simp add: outstanding_def uns) (simp add: flight unsent_def)
  from inv have ok: "data_ok is_match config M me w" by (simp add: wire_inv_def)
  show "data_ok is_match config M me w'"
    using data_ok_shrink [OF ok, of w'] data_okD(5) [OF ok] by (simp add: flight same)
  from inv task show "sequence_counter (w_transport w) = n + 1" "n \<notin> set (own_seqs b)" "b_counter b = n"
    "b_unrecorded b = None" and mine: "belongs M (mtu_of w) n pkt" "\<forall>pkt \<in> set pkts. belongs M (mtu_of w) n pkt"
    and "\<And>c d. M n = Some (c, d) \<Longrightarrow> cur = (key_prefix config @ ''/'' @ c, d)"
    by (auto simp: wire_inv_def sending_ok_def links_def)
  show "alive M me w q" if "q \<noteq> n" "alive M me w' q"
  proof -
    have "pkt \<notin> set (datagrams (mtu_of w) q c d)" if "M q = Some (c, d)" for c d
      using seq_of_datagram [OF data_okD(2) [OF ok that]] belongs_seq [OF ok mine(1)] \<open>q \<noteq> n\<close> by auto
    with that(2) show ?thesis by (fastforce simp: alive_def flight)
  qed
  show "handled_ok me w' b"
    using inv by (auto simp: wire_inv_def handled_ok_def same flight split: l2z_task.splits)
qed

lemma step_emit:
  assumes run: "group_run strict is_match valid_ke config tr b"
    and inv: "wire_inv is_match config M me cur w b"
    and exec: "wire_exec is_match valid_ke config me w Emit = Some w'"
  shows "\<exists>b'. group_run strict is_match valid_ke config (tr @ wire_event (cur, w) Emit (cur, w')) b' \<and>
    wire_inv is_match config M me cur w' b'"
proof -
  obtain n pkt pkts where task: "w_ztask w = ZSending n (pkt # pkts)"
    and w': "w' = w\<lparr>w_flight := w_flight w @ [(me, pkt)], w_ztask := sending n pkts\<rparr>"
    using exec by (auto split: z2l_task.splits list.splits)
  note em = emitted [OF inv task w']
  have mtu: "mtu_of w' = mtu_of w" by (simp add: w')
  show ?thesis
  proof (cases "pkts = []")
    case False
    then have task': "w_ztask w' = ZSending n pkts" by (simp add: w' sending_nonempty)
    have "\<not> alive M me w' n"
      using unsent_not_alive [OF em(2) task' False] em(10) by (simp add: mtu)
    with em(3) inv have "group_ok M me w' b" unfolding wire_inv_def group_ok_def by metis
    moreover have "sending_ok config M cur w' b"
      using em(5,6,10,11) False by (simp add: sending_ok_def task' mtu) (simp add: w')
    moreover have "links w' b" using inv task task' by (simp add: wire_inv_def links_def w')
    moreover have "wire_event (cur, w) Emit (cur, w') = []" by (cases cur) (simp add: task')
    ultimately show ?thesis using run em(2,4) by (auto simp: wire_inv_def simp del: wire_event.simps)
  next
    case True
    then have task': "w_ztask w' = ZRecording n" by (simp add: w')
    obtain c d where M: "M n = Some (c, d)" using em(9) by (auto simp: belongs_def)
    let ?b = "b\<lparr>b_counter := n + 1, b_unrecorded := Some n, b_group := b_group b @ [(True, message n (c, d))]\<rparr>"
    have "bridge_exec is_match valid_ke config b (Send (key_prefix config @ ''/'' @ c) d) = Some ?b"
      using em(7,8) data_okD(3) [OF em(2) M] by (simp add: message_def)
    moreover have "wire_event (cur, w) Emit (cur, w') =
        bridge_event b (Send (key_prefix config @ ''/'' @ c) d)"
      using em(7) em(11) [OF M] by (simp add: task' bridge_event_def)
    ultimately have "group_run strict is_match valid_ke config (tr @ wire_event (cur, w) Emit (cur, w')) ?b"
      using group_run_step [OF run] em(6,7) by (simp add: orderly_def)
    moreover have "group_ok M me w' ?b"
      unfolding group_ok_def
    proof (intro allI impI)
      fix q
      assume "alive M me w' q"
      with em(3) inv M show "(True, message q (the (M q))) \<in> set (b_group ?b)"
        by (cases "q = n") (simp_all add: wire_inv_def group_ok_def)
    qed
    moreover have "links w' ?b" using inv task task' em(5) by (simp add: wire_inv_def links_def w')
    moreover have "handled_ok me w' ?b"
      using em(4) by (auto simp: handled_ok_def split: l2z_task.splits)
    moreover have "sending_ok config M cur w' ?b" by (simp add: sending_ok_def task')
    ultimately show ?thesis using em(2) unfolding wire_inv_def by blast
  qed
qed

lemma step_emit_fails:
  assumes run: "group_run strict is_match valid_ke config tr b"
    and inv: "wire_inv is_match config M me cur w b"
    and exec: "wire_exec is_match valid_ke config me w EmitFails = Some w'"
  shows "\<exists>b'. group_run strict is_match valid_ke config (tr @ wire_event (cur, w) EmitFails (cur, w')) b' \<and>
    wire_inv is_match config M me cur w' b'"
proof -
  obtain n pkts where task: "w_ztask w = ZSending n pkts" and w': "w' = w\<lparr>w_ztask := ZWaiting\<rparr>"
    using exec by (auto split: z2l_task.splits)
  let ?b = "b\<lparr>b_counter := b_counter b + 1\<rparr>"
  have "bridge_exec is_match valid_ke config b FailSend = Some ?b"
    using inv task by (simp add: wire_inv_def links_def)
  moreover have "wire_event (cur, w) EmitFails (cur, w') = bridge_event b FailSend"
    using inv task by (cases cur) (simp add: wire_inv_def links_def bridge_event_def)
  ultimately have "group_run strict is_match valid_ke config (tr @ wire_event (cur, w) EmitFails (cur, w')) ?b"
    using group_run_step [OF run] by (simp add: orderly_def)
  moreover have out: "outstanding me w' = own_flight me w" "own_flight me w' = own_flight me w"
    by (simp_all add: w' outstanding_def unsent_def own_flight_def)
  moreover from inv have ok: "data_ok is_match config M me w" by (simp add: wire_inv_def)
  have "data_ok is_match config M me w'"
    using data_ok_shrink [OF ok, of w'] data_okD(5) [OF ok] out by (simp add: w' outstanding_def)
  moreover have "links w' ?b"
    using inv task by (simp add: wire_inv_def links_def sending_ok_def w')
  moreover have "sending_ok config M cur w' ?b" by (simp add: w' sending_ok_def)
  moreover have "handled_ok me w' ?b"
    using inv out by (auto simp: wire_inv_def handled_ok_def outstanding_def w' split: l2z_task.splits)
  moreover have "group_ok M me w' ?b"
    using inv alive_shrink [of M me w' _ w] out by (auto simp: wire_inv_def group_ok_def w')
  ultimately show ?thesis by (auto simp: wire_inv_def)
qed

lemma step_store:
  assumes run: "group_run strict is_match valid_ke config tr b"
    and inv: "wire_inv is_match config M me cur w b" and tidy: "tidy me w b"
    and exec: "wire_exec is_match valid_ke config me w Store = Some w'"
    and env: "strict \<Longrightarrow> wire_orderly me w Store"
  shows "\<exists>b'. group_run strict is_match valid_ke config (tr @ wire_event (cur, w) Store (cur, w')) b' \<and>
    wire_inv is_match config M me cur w' b'"
proof -
  obtain n where task: "w_ztask w = ZRecording n"
    and w': "w' = w\<lparr>w_sent := record_sequence (w_sent w) n, w_ztask := ZWaiting\<rparr>"
    using exec by (auto split: z2l_task.splits)
  let ?b = "b\<lparr>b_sent := record_sequence (b_sent b) n, b_unrecorded := None\<rparr>"
  have b: "b_unrecorded b = Some n" using inv task by (simp add: wire_inv_def links_def)
  then have "bridge_exec is_match valid_ke config b Record = Some ?b" by simp
  moreover have "orderly b Record" if strict
    using env [OF that] tidy b task by (simp add: wire_orderly_def orderly_def tidy_def)
  moreover have "wire_event (cur, w) Store (cur, w') = bridge_event b Record"
    using b task by (cases cur) (simp add: bridge_event_def)
  ultimately have "group_run strict is_match valid_ke config (tr @ wire_event (cur, w) Store (cur, w')) ?b"
    using group_run_step [OF run] by metis
  moreover have out: "outstanding me w' = outstanding me w" "own_flight me w' = own_flight me w"
    using task by (simp_all add: w' outstanding_def unsent_def own_flight_def)
  moreover from inv have ok: "data_ok is_match config M me w" by (simp add: wire_inv_def)
  have "data_ok is_match config M me w'"
    using data_ok_shrink [OF ok, of w'] data_okD(5) [OF ok] out by (simp add: w')
  moreover have "links w' ?b" using inv task by (simp add: wire_inv_def links_def w')
  moreover have "sending_ok config M cur w' ?b" by (simp add: w' sending_ok_def)
  moreover have "handled_ok me w' ?b"
    using inv out by (auto simp: wire_inv_def handled_ok_def w' split: l2z_task.splits)
  moreover have "group_ok M me w' ?b"
    using inv alive_shrink [of M me w' _ w] out by (auto simp: wire_inv_def group_ok_def w')
  ultimately show ?thesis by (auto simp: wire_inv_def)
qed

section \<open>Steps of the network\<close>

lemma outstanding_without:
  assumes "i < length (w_flight w)" and "w_flight w ! i = (src, pkt)"
    and "w_flight w' = without i (w_flight w)" and "w_ztask w' = w_ztask w"
    and "distinct (outstanding me w)"
  shows "set (outstanding me w') \<subseteq> set (outstanding me w)" "distinct (outstanding me w')"
    "set (own_flight me w') \<subseteq> set (own_flight me w)"
    "src = me \<Longrightarrow> pkt \<in> set (own_flight me w) \<and> pkt \<notin> set (outstanding me w')"
    "src \<noteq> me \<Longrightarrow> outstanding me w' = outstanding me w"
proof -
  have "unsent w' = unsent w" using assms(4) by (simp add: unsent_def)
  with own_flight_without [OF assms(1-3), of me] assms(5) show
    "set (outstanding me w') \<subseteq> set (outstanding me w)" "distinct (outstanding me w')"
    "set (own_flight me w') \<subseteq> set (own_flight me w)"
    "src = me \<Longrightarrow> pkt \<in> set (own_flight me w) \<and> pkt \<notin> set (outstanding me w')"
    "src \<noteq> me \<Longrightarrow> outstanding me w' = outstanding me w"
    by (auto simp: outstanding_def)
qed

lemma step_discard:
  assumes inv: "wire_inv is_match config M me cur w b"
    and exec: "wire_exec is_match valid_ke config me w (Discard i) = Some w'"
  shows "wire_inv is_match config M me cur w' b"
proof -
  from exec have i: "i < length (w_flight w)" and w': "w' = w\<lparr>w_flight := without i (w_flight w)\<rparr>"
    by (simp_all split: if_splits)
  from inv have ok: "data_ok is_match config M me w" by (simp add: wire_inv_def)
  obtain src pkt where "w_flight w ! i = (src, pkt)" by fastforce
  from outstanding_without [OF i this _ _ data_okD(5) [OF ok], of w'] have
    sub: "set (outstanding me w') \<subseteq> set (outstanding me w)" "distinct (outstanding me w')"
      "set (own_flight me w') \<subseteq> set (own_flight me w)" by (simp_all add: w')
  have same: "w_transport w' = w_transport w" "w_reassembler w' = w_reassembler w" "w_ztask w' = w_ztask w"
    "w_ltask w' = w_ltask w" "w_sent w' = w_sent w" "w_published w' = w_published w" by (simp_all add: w')
  have "data_ok is_match config M me w'"
    using data_ok_shrink [OF ok, of w'] sub by (simp add: same)
  moreover have "links w' b" "sending_ok config M cur w' b"
    using inv by (simp_all add: wire_inv_def links_def sending_ok_def same split: z2l_task.splits)
  moreover have "handled_ok me w' b"
    using inv sub(1) by (auto simp: wire_inv_def handled_ok_def same split: l2z_task.splits)
  moreover have "group_ok M me w' b"
    using inv alive_shrink [of M me w' _ w] sub(3) by (auto simp: wire_inv_def group_ok_def same)
  ultimately show ?thesis by (simp add: wire_inv_def)
qed

lemma step_inject:
  assumes inv: "wire_inv is_match config M me cur w b" and "src \<noteq> me"
    and exec: "wire_exec is_match valid_ke config me w (Inject src pkt) = Some w'"
  shows "wire_inv is_match config M me cur w' b"
proof -
  from exec have w': "w' = w\<lparr>w_flight := w_flight w @ [(src, pkt)]\<rparr>" by simp
  have same: "w_transport w' = w_transport w" "w_reassembler w' = w_reassembler w" "w_ztask w' = w_ztask w"
    "w_ltask w' = w_ltask w" "w_sent w' = w_sent w" "w_published w' = w_published w"
    "own_flight me w' = own_flight me w" "outstanding me w' = outstanding me w"
    using assms(2) by (simp_all add: w' own_flight_def outstanding_def unsent_def)
  from inv show ?thesis
    unfolding wire_inv_def data_ok_def links_def sending_ok_def handled_ok_def group_ok_def alive_def same .
qed

section \<open>Steps of the receiving task\<close>

text \<open>What an arrival may add to the pending sets of the bridge's own messages.\<close>

definition only_adds ::
  "messages \<Rightarrow> SocketAddr \<Rightarrow> wire_state \<Rightarrow> SocketAddr \<Rightarrow> bytes \<Rightarrow> FragmentReassembler \<Rightarrow> bool" where
  "only_adds M me w src pkt r' \<longleftrightarrow> (\<forall>n s. pending r' (me, n) = Some s \<longrightarrow>
     (\<exists>c d. M n = Some (c, d) \<and> stands_for (mtu_of w) n c d s \<and>
       (\<forall>i \<in> seen s. i \<in> arrived (w_reassembler w) (me, n) \<or>
         src = me \<and> sent_datagrams (mtu_of w) n c d ! i = pkt)))"

lemma after_arrival:
  assumes ok: "data_ok is_match config M me w" and adds: "only_adds M me w src pkt (w_reassembler w')"
    and r': "reassembler_ok (w_reassembler w')" and mtu: "mtu_of w' = mtu_of w"
    and sub: "set (outstanding me w') \<subseteq> set (outstanding me w)" "distinct (outstanding me w')"
      "set (own_flight me w') \<subseteq> set (own_flight me w)"
      "src = me \<Longrightarrow> pkt \<in> set (own_flight me w) \<and> pkt \<notin> set (outstanding me w')"
  shows "data_ok is_match config M me w'" and "alive M me w' n \<Longrightarrow> alive M me w n"
proof -
  have "pending_ok M (mtu_of w) me (w_reassembler w') (set (outstanding me w'))"
    unfolding pending_ok_def
  proof (intro allI impI)
    fix q s
    assume "pending (w_reassembler w') (me, q) = Some s"
    with adds obtain c d where s: "M q = Some (c, d)" "stands_for (mtu_of w) q c d s"
      "\<And>i. i \<in> seen s \<Longrightarrow> i \<in> arrived (w_reassembler w) (me, q) \<or>
         src = me \<and> sent_datagrams (mtu_of w) q c d ! i = pkt"
      unfolding only_adds_def by blast
    have "sent_datagrams (mtu_of w) q c d ! i \<notin> set (outstanding me w')" if "i \<in> seen s" for i
      using s(3) [OF that] arrived_in_range(3) [OF ok s(1), of i] sub(1,4) by auto
    with s(1,2) show "\<exists>c d. M q = Some (c, d) \<and> stands_for (mtu_of w) q c d s \<and>
        (\<forall>i \<in> seen s. sent_datagrams (mtu_of w) q c d ! i \<notin> set (outstanding me w'))" by blast
  qed
  moreover have "\<forall>pkt \<in> set (outstanding me w'). \<exists>n. belongs M (mtu_of w) n pkt"
    using data_okD(4) [OF ok] sub(1) by blast
  ultimately show "data_ok is_match config M me w'"
    using data_okD(2,3) [OF ok] r' sub(2) unfolding data_ok_def mtu by blast
  assume "alive M me w' n"
  then obtain c d where M: "M n = Some (c, d)"
    and all: "\<forall>p \<in> set (datagrams (mtu_of w) n c d). p \<in> set (own_flight me w') \<or>
      (\<exists>i \<in> arrived (w_reassembler w') (me, n). p = sent_datagrams (mtu_of w) n c d ! i)"
    by (auto simp: alive_def mtu)
  have new: "i \<in> arrived (w_reassembler w) (me, n) \<or> src = me \<and> sent_datagrams (mtu_of w) n c d ! i = pkt"
    if i: "i \<in> arrived (w_reassembler w') (me, n)" for i
  proof -
    from i obtain s where "pending (w_reassembler w') (me, n) = Some s" "i \<in> seen s"
      by (auto simp: arrived_def split: option.splits)
    with adds M show ?thesis unfolding only_adds_def by fastforce
  qed
  have "p \<in> set (own_flight me w) \<or>
      (\<exists>i \<in> arrived (w_reassembler w) (me, n). p = sent_datagrams (mtu_of w) n c d ! i)"
    if "p \<in> set (datagrams (mtu_of w) n c d)" for p
    using all [rule_format, OF that] new sub(3,4) by blast
  with M show "alive M me w n" by (auto simp: alive_def)
qed

lemma recv_iter_ok: "reassembler_ok r \<Longrightarrow> recv_iter r event = Ret (r', out) \<Longrightarrow> reassembler_ok r'"
  using receiver.step_inv [of "timeout r" "max_message_size r" r event r' out] by (simp add: reassembler_inv_def)

lemma recv_iter_cases:
  assumes "recv_iter r event = Ret (r', out)"
  obtains "arrival_of event = None" "r' = r"
  | f sender now now' msg where "arrival_of event = Some (f, sender, now, now')"
    "process r f sender now now' = Ret (r', msg)" "out = map_option Received msg"
proof (cases "arrival_of event")
  case None
  with recv_iter_no_arrival [OF None, of r] assms show ?thesis using that(1) by auto
next
  case (Some a)
  obtain f sender now now' where a: "a = (f, sender, now, now')" by (cases a)
  with assms show ?thesis
    using that(2) [OF Some [unfolded a]]
    by (auto simp: recv_iter_arrival [OF Some] process_arrival_def bind_eq_Some_conv)
qed

lemma arrival_sender: "arrival_of (Datagram pkt src now now') = Some (f, sender, t, t') \<Longrightarrow> sender = src"
  by (auto simp: arrival_of_def split: option.splits Packet.splits)

lemma others_arrive:
  assumes "data_ok is_match config M me w" and "src \<noteq> me"
    and "recv_iter (w_reassembler w) (Datagram pkt src now now' :: 'e incoming) = Ret (r', out)"
  shows "only_adds M me w src pkt r'"
proof -
  have "pending r' (me, n) = None \<or> pending r' (me, n) = pending (w_reassembler w) (me, n)" for n
    using assms(3)
  proof (cases rule: recv_iter_cases)
    case (2 f sender t t' msg)
    from arrival_sender [OF 2(1)] assms(2) have "(me, n) \<noteq> key_of f sender" by (simp add: key_of_def)
    from process_others [OF data_okD(1) [OF assms(1)] 2(2) this] show ?thesis .
  qed simp
  then show ?thesis
    using data_okD(6) [OF assms(1)] unfolding only_adds_def pending_ok_def arrived_def
    by (metis option.distinct(1) option.simps(5))
qed

text \<open>A datagram of the bridge itself arrives. When it completes its message, none of the message's
  datagrams was lost, and none is left.\<close>

definition completes ::
  "messages \<Rightarrow> SocketAddr \<Rightarrow> wire_state \<Rightarrow> bytes \<Rightarrow> FragmentReassembler \<Rightarrow> LcmMessage \<Rightarrow> bool" where
  "completes M me w pkt r' msg \<longleftrightarrow> (\<exists>n. alive M me w n \<and> msg = message n (the (M n)) \<and>
     pending r' (me, n) = None \<and> (\<forall>p \<in> set (outstanding me w). seq_of p = Some n \<longrightarrow> p = pkt))"

lemma outstanding_datagram:
  assumes "data_ok is_match config M me w" and "M n = Some (c, d)"
    and "p \<in> set (outstanding me w)" "seq_of p = Some n"
  shows "p \<in> set (datagrams (mtu_of w) n c d)"
  using outstanding_belongs [OF assms(1,3,4)] assms(2) by (simp add: belongs_def)

lemma own_short_arrives:
  assumes ok: "data_ok is_match config M me w" and M: "M n = Some (c, d)"
    and short: "is_short (mtu_of w) c d" "pkt = encode_short_message [] n c d"
    and pkt: "pkt \<in> set (own_flight me w)"
  shows "only_adds M me w me pkt (w_reassembler w)"
    and "completes M me w pkt (w_reassembler w) (message n (c, d))"
proof -
  note stands = data_okD(6) [OF ok, unfolded pending_ok_def]
  have one: "datagrams (mtu_of w) n c d = [pkt]" using short by (simp add: datagrams_def)
  have "pending (w_reassembler w) (me, n) = None"
  proof (rule ccontr)
    assume "pending (w_reassembler w) (me, n) \<noteq> None"
    then obtain s where "pending (w_reassembler w) (me, n) = Some s" by auto
    with stands obtain c' d' where "M n = Some (c', d')" "stands_for (mtu_of w) n c' d' s" by blast
    with M short(1) show False by (simp add: stands_for_def)
  qed
  moreover have "alive M me w n" using M pkt one by (simp add: alive_def)
  ultimately show "completes M me w pkt (w_reassembler w) (message n (c, d))"
    using outstanding_datagram [OF ok M] M one unfolding completes_def by fastforce
  show "only_adds M me w me pkt (w_reassembler w)"
    using stands unfolding only_adds_def arrived_def by fastforce
qed

lemma own_fragment_arrives:
  assumes ok: "data_ok is_match config M me w" and M: "M n = Some (c, d)"
    and frag: "\<not> is_short (mtu_of w) c d" "fragmentable (mtu_of w) c d"
      "i < length (sent_fragments (mtu_of w) n c d)" "pkt = sent_datagrams (mtu_of w) n c d ! i"
    and "now \<le> now'"
    and proc: "process (w_reassembler w) (sent_fragments (mtu_of w) n c d ! i) me now now' = Ret (r', res)"
  shows "only_adds M me w me pkt r'"
    and "res \<noteq> None \<Longrightarrow> res = Some (message n (c, d)) \<and> pending r' (me, n) = None \<and>
      insert i (arrived (w_reassembler w) (me, n)) = {..<length (sent_fragments (mtu_of w) n c d)}"
proof -
  let ?fs = "sent_fragments (mtu_of w) n c d"
  note stands = data_okD(6) [OF ok, unfolded pending_ok_def]
  have set: "stands_for (mtu_of w) n c d s" if "pending (w_reassembler w) (me, n) = Some s" for s
    using stands that M by fastforce
  from fragment_arrives [OF data_okD(1) [OF ok] frag(2,1,3) assms(7) set, of me] proc have
    set': "\<And>s. pending r' (me, n) = Some s \<Longrightarrow> stands_for (mtu_of w) n c d s"
    and adds: "arrived r' (me, n) \<subseteq> insert i (arrived (w_reassembler w) (me, n))"
    and final: "res \<noteq> None \<Longrightarrow> res = Some (message n (c, d)) \<and> pending r' (me, n) = None \<and>
      insert i (arrived (w_reassembler w) (me, n)) = {..<length ?fs}" by auto
  from final show "res \<noteq> None \<Longrightarrow> res = Some (message n (c, d)) \<and> pending r' (me, n) = None \<and>
      insert i (arrived (w_reassembler w) (me, n)) = {..<length ?fs}" .
  show "only_adds M me w me pkt r'"
    unfolding only_adds_def
  proof (intro allI impI)
    fix q s
    assume s: "pending r' (me, q) = Some s"
    show "\<exists>c d. M q = Some (c, d) \<and> stands_for (mtu_of w) q c d s \<and> (\<forall>i \<in> seen s.
        i \<in> arrived (w_reassembler w) (me, q) \<or> me = me \<and> sent_datagrams (mtu_of w) q c d ! i = pkt)"
    proof (cases "q = n")
      case True
      with s adds have "seen s \<subseteq> insert i (arrived (w_reassembler w) (me, n))"
        by (simp add: arrived_def)
      with True M set' s frag(4) show ?thesis by blast
    next
      case False
      then have "(me, q) \<noteq> key_of (?fs ! i) me"
        using sent_fragment_at(1) [OF frag(2,3)] by (simp add: key_of_def)
      from process_others [OF data_okD(1) [OF ok] proc this] s
      have same: "pending (w_reassembler w) (me, q) = Some s" by auto
      with stands obtain c d where "M q = Some (c, d)" "stands_for (mtu_of w) q c d s" by blast
      with same show ?thesis by (auto simp: arrived_def)
    qed
  qed
qed

lemma all_arrived_completes:
  assumes ok: "data_ok is_match config M me w" and M: "M n = Some (c, d)"
    and frag: "\<not> is_short (mtu_of w) c d" "pkt = sent_datagrams (mtu_of w) n c d ! i"
    and pkt: "pkt \<in> set (own_flight me w)" and "pending r' (me, n) = None"
    and full: "insert i (arrived (w_reassembler w) (me, n)) = {..<length (sent_fragments (mtu_of w) n c d)}"
  shows "completes M me w pkt r' (message n (c, d))"
proof -
  have all: "p = pkt \<or> (\<exists>j \<in> arrived (w_reassembler w) (me, n). p = sent_datagrams (mtu_of w) n c d ! j)"
    if "p \<in> set (datagrams (mtu_of w) n c d)" for p
  proof -
    from that frag(1) obtain j where j: "j < length (sent_fragments (mtu_of w) n c d)"
      "p = sent_datagrams (mtu_of w) n c d ! j"
      by (auto simp: datagrams_def in_set_conv_nth sent_datagrams_def)
    then have "j = i \<or> j \<in> arrived (w_reassembler w) (me, n)" using full by blast
    with j frag(2) show ?thesis by auto
  qed
  have "alive M me w n" unfolding alive_def using M all pkt by blast
  moreover have "p = pkt" if "p \<in> set (outstanding me w)" "seq_of p = Some n" for p
    using all [OF outstanding_datagram [OF ok M that]] arrived_in_range(3) [OF ok M] that(1) by auto
  ultimately show ?thesis using assms(6) M by (auto simp: completes_def)
qed

lemma own_arrives:
  assumes ok: "data_ok is_match config M me w" and pkt: "pkt \<in> set (own_flight me w)" and "now \<le> now'"
    and step: "recv_iter (w_reassembler w) (Datagram pkt me now now' :: unit incoming) = Ret (r', out)"
  shows "only_adds M me w me pkt r' \<and> (\<forall>msg. out = Some (Received msg) \<longrightarrow> completes M me w pkt r' msg)"
proof -
  obtain n where "belongs M (mtu_of w) n pkt"
    using data_okD(4) [OF ok, of pkt] pkt by (auto simp: outstanding_def)
  then obtain c d where M: "M n = Some (c, d)" and mem: "pkt \<in> set (datagrams (mtu_of w) n c d)"
    by (auto simp: belongs_def)
  from data_okD(2) [OF ok M] mem show ?thesis
  proof (cases rule: datagram_cases)
    case short
    with step have "r' = w_reassembler w" "out = Some (Received (message n (c, d)))"
      by (simp_all add: recv_iter_def message_def)
    with own_short_arrives [OF ok M short(1,2) pkt] show ?thesis by simp
  next
    case (frag i)
    obtain res where proc:
      "process (w_reassembler w) (sent_fragments (mtu_of w) n c d ! i) me now now' = Ret (r', res)"
      and out: "out = map_option Received res"
      using step frag(5) by (auto simp: recv_iter_def bind_eq_Some_conv split: option.splits)
    note arrives = own_fragment_arrives [OF ok M frag(1-4) assms(3) proc]
    have "completes M me w pkt r' msg" if "out = Some (Received msg)" for msg
      using arrives(2) all_arrived_completes [OF ok M frag(1,4) pkt, of r'] that out by auto
    with arrives(1) show ?thesis by blast
  qed
qed

lemma msg_sequence_number_message [simp]: "msg_sequence_number (message n x) = n"
  by (simp add: message_def split: prod.split)

lemma step_arrive:
  assumes run: "group_run strict is_match valid_ke config tr b"
    and inv: "wire_inv is_match config M me cur w b"
    and exec: "wire_exec is_match valid_ke config me w (Arrive i now now') = Some w'"
  shows "\<exists>b'. group_run strict is_match valid_ke config (tr @ wire_event (cur, w) (Arrive i now now') (cur, w')) b' \<and>
    wire_inv is_match config M me cur w' b'"
proof -
  obtain src pkt where fl: "w_flight w ! i = (src, pkt)" by fastforce
  have cond: "w_ltask w = LReceiving" "i < length (w_flight w)" "now \<le> now'"
    using exec by (auto split: if_splits)
  let ?task = "\<lambda>out. case out of Some (Received msg) \<Rightarrow> LReceived (src = me) msg | _ \<Rightarrow> LReceiving"
  obtain r' out where step: "recv_iter (w_reassembler w) (Datagram pkt src now now' :: unit incoming) = Ret (r', out)"
    and w': "w' = w\<lparr>w_reassembler := r', w_flight := without i (w_flight w), w_ltask := ?task out\<rparr>"
    using exec cond fl by (auto simp: Let_def split: option.splits)
  from inv have ok: "data_ok is_match config M me w" by (simp add: wire_inv_def)
  have same: "w_transport w' = w_transport w" "w_ztask w' = w_ztask w" "w_sent w' = w_sent w"
    "w_published w' = w_published w" "w_flight w' = without i (w_flight w)" "w_reassembler w' = r'"
    by (simp_all add: w')
  note sub = outstanding_without [OF cond(2) fl same(5,2) data_okD(5) [OF ok]]
  have own: "only_adds M me w src pkt r'"
    and final: "\<And>msg. out = Some (Received msg) \<Longrightarrow> src = me \<Longrightarrow> completes M me w pkt r' msg"
    using others_arrive [OF ok _ step] own_arrives [OF ok _ cond(3), of pkt r' out] step sub(4)
    by (cases "src = me"; blast)+
  have ok': "data_ok is_match config M me w'" and alive: "\<And>n. alive M me w' n \<Longrightarrow> alive M me w n"
    using after_arrival [OF ok, of src pkt w'] own recv_iter_ok [OF data_okD(1) [OF ok] step] sub(1-4)
    by (simp_all add: same)
  define b' where "b' = (if src \<noteq> me \<and> w_ltask w' \<noteq> LReceiving
    then b\<lparr>b_group := b_group b @ [(False, case w_ltask w' of LReceived own msg \<Rightarrow> msg)]\<rparr> else b)"
  have "wire_event (cur, w) (Arrive i now now') (cur, w') =
      (if src \<noteq> me \<and> w_ltask w' \<noteq> LReceiving
       then [Hears (case w_ltask w' of LReceived own msg \<Rightarrow> msg)] else [])"
    by (cases cur) (simp add: w' split: option.split recv_result.split l2z_task.split)
  then have "group_run strict is_match valid_ke config (tr @ wire_event (cur, w) (Arrive i now now') (cur, w')) b'"
    using group_run_step [OF run, of "Foreign (case w_ltask w' of LReceived own msg \<Rightarrow> msg)"] run
    by (simp add: b'_def orderly_def bridge_event_def del: wire_event.simps)
  moreover have seqs: "own_seqs b' = own_seqs b" and keep: "set (b_group b) \<subseteq> set (b_group b')"
    by (auto simp: b'_def own_seqs_def)
  have "links w' b'"
    using inv by (auto simp: wire_inv_def links_def same b'_def split: z2l_task.split)
  moreover have "sending_ok config M cur w' b'"
    using inv by (auto simp: wire_inv_def sending_ok_def same seqs split: z2l_task.split)
  moreover have "group_ok M me w' b'"
    using inv alive keep by (auto simp: wire_inv_def group_ok_def)
  moreover have "handled_ok me w' b'"
  proof (cases "w_ltask w'")
    case (LReceived o' msg)
    then have o': "o' = (src = me)" "out = Some (Received msg)"
      by (auto simp: w' split: option.splits recv_result.splits)
    show ?thesis
    proof (cases "src = me")
      case False
      with LReceived o'(1) show ?thesis by (simp add: handled_ok_def b'_def)
    next
      case True
      from final [OF o'(2) True] obtain n where n: "alive M me w n" "msg = message n (the (M n))"
        "pending r' (me, n) = None" "\<forall>p \<in> set (outstanding me w). seq_of p = Some n \<longrightarrow> p = pkt"
        unfolding completes_def by blast
      have "(True, msg) \<in> set (b_group b')"
        using inv n(1,2) keep by (auto simp: wire_inv_def group_ok_def)
      moreover have "seq_of p \<noteq> Some n" if "p \<in> set (outstanding me w')" for p
        using that n(4) sub(1,4) True by auto
      ultimately show ?thesis using LReceived o'(1) True n(2,3) by (simp add: handled_ok_def same)
    qed
  qed (simp add: handled_ok_def)
  ultimately show ?thesis using ok' by (auto simp: wire_inv_def)
qed

lemma in_without: "x \<in> set xs \<Longrightarrow> i < length xs \<Longrightarrow> x \<noteq> xs ! i \<Longrightarrow> x \<in> set (without i xs)"
  using id_take_nth_drop [of i xs] by (metis Un_iff set_ConsD set_append without_def)

lemma step_handle:
  assumes run: "group_run strict is_match valid_ke config tr b"
    and inv: "wire_inv is_match config M me cur w b"
    and exec: "wire_exec is_match valid_ke config me w Handle = Some w'"
    and env: "strict \<Longrightarrow> wire_orderly me w Handle"
  shows "\<exists>b'. group_run strict is_match valid_ke config (tr @ wire_event (cur, w) Handle (cur, w')) b' \<and>
    wire_inv is_match config M me cur w' b'"
proof -
  obtain own m seqs out where task: "w_ltask w = LReceived own m"
    and h: "l2z_handle is_match valid_ke config (w_sent w) m = (seqs, out :: unit l2z_outcome)"
    and w': "w' = w\<lparr>w_sent := seqs, w_published := w_published w @ publication own out, w_ltask := LReceiving\<rparr>"
    using exec by (auto simp: Let_def split: l2z_task.splits prod.splits)
  from inv have ok: "data_ok is_match config M me w" and links: "links w b" by (simp_all add: wire_inv_def)
  from inv task have "(own, m) \<in> set (b_group b)" by (simp add: wire_inv_def handled_ok_def)
  then obtain i where i: "i < length (b_group b)" "b_group b ! i = (own, m)" by (metis in_set_conv_nth)
  let ?b = "b\<lparr>b_sent := seqs, b_group := without i (b_group b),
    b_published := b_published b @ publication own out\<rparr>"
  have "bridge_exec is_match valid_ke config b (Deliver i) = Some ?b"
    using i h links by (simp add: links_def)
  moreover have "orderly b (Deliver i)" if strict
    using env [OF that] i(2) task links
    by (auto simp: orderly_def wire_orderly_def links_def split: bool.splits z2l_task.splits)
  moreover have "wire_event (cur, w) Handle (cur, w') = bridge_event b (Deliver i)"
    using i(2) task by (cases cur) (simp add: bridge_event_def)
  ultimately have "group_run strict is_match valid_ke config (tr @ wire_event (cur, w) Handle (cur, w')) ?b"
    using group_run_step [OF run] by metis
  moreover have same: "w_transport w' = w_transport w" "w_ztask w' = w_ztask w"
    "w_reassembler w' = w_reassembler w" "outstanding me w' = outstanding me w"
    "own_flight me w' = own_flight me w"
    by (simp_all add: w' outstanding_def unsent_def own_flight_def)
  moreover have "data_ok is_match config M me w'"
    using data_ok_shrink [OF ok, of w'] data_okD(5) [OF ok] same by simp
  moreover have "links w' ?b" using links by (simp add: links_def w' split: z2l_task.split)
  moreover have "set (own_seqs ?b) \<subseteq> set (own_seqs b)"
    using own_seqs_without [OF i, of ?b] by auto
  then have "sending_ok config M cur w' ?b"
    using inv by (auto simp: wire_inv_def sending_ok_def same split: z2l_task.splits)
  moreover have "handled_ok me w' ?b" by (simp add: handled_ok_def w')
  moreover have "group_ok M me w' ?b"
    unfolding group_ok_def
  proof (intro allI impI)
    fix n
    assume "alive M me w' n"
    then have alive: "alive M me w n" by (simp add: alive_def same)
    have "(True, message n (the (M n))) \<noteq> b_group b ! i"
    proof
      assume "(True, message n (the (M n))) = b_group b ! i"
      then have "own" "msg_sequence_number m = n" using i(2) by auto
      with inv task have "seq_of pkt \<noteq> Some n" if "pkt \<in> set (outstanding me w)" for pkt
        using that by (auto simp: wire_inv_def handled_ok_def)
      with alive_present [OF ok alive] show False
        unfolding outstanding_def set_append by (metis UnI1 image_iff)
    qed
    with inv alive i(1) show "(True, message n (the (M n))) \<in> set (b_group ?b)"
      by (auto simp: wire_inv_def group_ok_def intro!: in_without)
  qed
  ultimately show ?thesis by (auto simp: wire_inv_def)
qed

end
