(* ===== verification/Wire_Refinement.thy ===== *)
theory Wire_Refinement
  imports Wire_Simulation
begin

text \<open>
  The datagram-level concurrent model refines the message-level one. While the network neither
  duplicates datagrams nor forges the bridge's address, and no number is reused while datagrams of
  the earlier message are about, every run of the datagrams shows the events of a run of the messages:
  the same samples sent with the same numbers, the same numbers recorded, the same messages handled.
  So loop freedom holds of the datagrams.
\<close>

section \<open>The refinement\<close>

text \<open>The two environments: one for the refinement, one that also asks what loop prevention needs.\<close>

abbreviation wire_env ::
  "bool \<Rightarrow> ('re \<Rightarrow> string \<Rightarrow> bool) \<Rightarrow> 're Config \<Rightarrow> SocketAddr \<Rightarrow> wire_state \<Rightarrow> wire_action \<Rightarrow> bool" where
  "wire_env strict is_match config me w a \<equiv>
     faithful is_match config me w a \<and> (strict \<longrightarrow> wire_orderly me w a)"

lemma wire_inv_init:
  assumes "sequence_counter t = 0"
  shows "wire_inv is_match config Map.empty me cur (wire_init t config) bridge_init"
  using assms by (simp add: wire_inv_def data_ok_def links_def sending_ok_def handled_ok_def group_ok_def
      alive_def wire_init_def bridge_init_def outstanding_def own_flight_def unsent_def pending_ok_def
      l2z_reassembler_def FragmentReassembler_new_def reassembler_ok_def)

lemma wire_step_simulated:
  assumes "group_run strict is_match valid_ke config tr b" and "wire_inv is_match config M me cur w b"
    and "tidy me w b" and "wire_env strict is_match config me w a"
    and "watched_exec is_match valid_ke config me (cur, w) a = Some (cur', w')"
  shows "\<exists>M' b'. group_run strict is_match valid_ke config (tr @ wire_event (cur, w) a (cur', w')) b' \<and>
    wire_inv is_match config M' me cur' w' b'"
proof (cases a)
  case (Take ke payload)
  with assms(4,5) have step: "wire_exec is_match valid_ke config me w (Take ke payload) = Some w'"
    "faithful is_match config me w (Take ke payload)" and cur: "cur' = (ke, payload)"
    by (auto simp del: wire_exec.simps)
  from step_take [OF assms(2,3) step] assms(1) Take cur show ?thesis by (cases cur) auto
next
  case Emit
  with step_emit [OF assms(1,2)] assms(5) show ?thesis by (auto simp del: wire_exec.simps wire_event.simps)
next
  case EmitFails
  with step_emit_fails [OF assms(1,2)] assms(5) show ?thesis
    by (auto simp del: wire_exec.simps wire_event.simps)
next
  case Store
  with step_store [OF assms(1-3)] assms(4,5) show ?thesis by (auto simp del: wire_exec.simps wire_event.simps)
next
  case (Arrive i now now')
  with assms(5) have step: "wire_exec is_match valid_ke config me w (Arrive i now now') = Some w'"
    and "cur' = cur" by (auto simp del: wire_exec.simps)
  with step_arrive [OF assms(1,2) step] Arrive show ?thesis by blast
next
  case Handle
  with step_handle [OF assms(1,2)] assms(4,5) show ?thesis by (auto simp del: wire_exec.simps wire_event.simps)
next
  case (Inject src pkt)
  then have "src \<noteq> me" using assms(4) by (simp add: faithful_def)
  from Inject assms(5) have step: "wire_exec is_match valid_ke config me w (Inject src pkt) = Some w'"
    and "cur' = cur" by (auto simp del: wire_exec.simps)
  with step_inject [OF assms(2) \<open>src \<noteq> me\<close> step] assms(1) Inject show ?thesis by (cases cur) auto
next
  case (Discard i)
  with assms(5) have step: "wire_exec is_match valid_ke config me w (Discard i) = Some w'"
    and "cur' = cur" by (auto simp del: wire_exec.simps)
  with step_discard [OF assms(2) step] assms(1) Discard show ?thesis by (cases cur) auto
qed

definition wire_related ::
  "('re \<Rightarrow> string \<Rightarrow> bool) \<Rightarrow> 're Config \<Rightarrow> SocketAddr \<Rightarrow> watched \<Rightarrow> bridge \<Rightarrow> bool" where
  "wire_related is_match config me s b \<longleftrightarrow>
     (\<exists>M. wire_inv is_match config M me (fst s) (snd s) b \<and> tidy me (snd s) b)"

interpretation wire: simulation "\<lambda>(_, w). wire_env strict is_match config me w"
  "watched_exec is_match valid_ke config me" wire_event "wire_related is_match config me"
  "group_run strict is_match valid_ke config"
  for strict is_match valid_ke config me
proof
  fix s b tr a s'
  assume rel: "wire_related is_match config me s b" and run: "group_run strict is_match valid_ke config tr b"
    and env: "(case s of (_, w) \<Rightarrow> wire_env strict is_match config me w) a"
    and step: "watched_exec is_match valid_ke config me s a = Some s'"
  obtain cur w cur' w' where s: "s = (cur, w)" "s' = (cur', w')" by (cases s, cases s')
  from rel obtain M where inv: "wire_inv is_match config M me cur w b" "tidy me w b"
    by (auto simp: s wire_related_def)
  from wire_step_simulated [OF run inv env [unfolded s prod.case] step [unfolded s]] obtain M' b' where
    "group_run strict is_match valid_ke config (tr @ wire_event s a s') b'"
    "wire_inv is_match config M' me cur' w' b'" unfolding s by blast
  from wire_inv_tidy [OF this] show "\<exists>b'. group_run strict is_match valid_ke config (tr @ wire_event s a s') b' \<and>
      wire_related is_match config me s' b'" by (auto simp: s wire_related_def)
qed

lemma wire_run_simulated:
  assumes "wire_run (wire_env strict is_match config me) is_match valid_ke config me (wire_init t config) as = Some w"
    and "sequence_counter t = 0"
  shows "\<exists>b. group_run strict is_match valid_ke config
    (wire_trace is_match valid_ke config me (wire_init t config) as) b \<and> links w b"
proof -
  let ?s = "(([], []), wire_init t config)"
  have "tidy me (wire_init t config) bridge_init"
    by (simp add: tidy_def bridge_init_def own_seqs_def)
  with wire_inv_init [OF assms(2)] have related: "wire_related is_match config me ?s bridge_init"
    unfolding wire_related_def fst_conv snd_conv by blast
  from watched_run [OF assms(1)] obtain cur where
    "guarded_run (\<lambda>(_, w). wire_env strict is_match config me w) (watched_exec is_match valid_ke config me) ?s as =
      Some (cur, w)" by blast
  from wire.run_simulated [OF related group_run_init this] show ?thesis
    by (auto simp: wire_related_def wire_inv_def wire_trace_def)
qed

section \<open>Properties\<close>

text \<open>Claim C5. The datagram-level tasks refine the message-level ones by trace inclusion. The
  environment is \<open>faithful\<close>: each sample taken is one that \<open>send\<close> carries without loss, its number is on
  none of the bridge's datagrams in flight, on no message being handled and in no pending set of the
  bridge's address, nobody else sends from that address, and no datagram is duplicated. Then for every
  run over single datagrams from a zero counter there is a run over whole messages that shows the same
  events in the same order (each sample sent with its number, each number whose sending fails, each
  number recorded, each message heard from others, each message handled with its origin), and that
  ends with the same recorded numbers, the same number still to record and the same publications. In
  particular a message handled as the bridge's own is one it sent, with its content and number.\<close>

theorem wire_refines_bridge:
  assumes "wire_run (faithful is_match config me) is_match valid_ke config me (wire_init t config) as = Some w"
    and "sequence_counter t = 0"
  shows "\<exists>bs b. bridge_run_under (\<lambda>_ _. True) is_match valid_ke config bridge_init bs = Some b \<and>
    bridge_trace is_match valid_ke config bridge_init bs =
      wire_trace is_match valid_ke config me (wire_init t config) as \<and>
    b_sent b = w_sent w \<and> b_published b = w_published w \<and>
    b_unrecorded b = (case w_ztask w of ZRecording n \<Rightarrow> Some n | _ \<Rightarrow> None)"
  using wire_run_simulated [where strict = False and is_match = is_match and config = config and me = me
      and valid_ke = valid_ke and t = t and as = as and w = w] assms by (auto simp: links_def group_run_def)

definition wire_example :: wire_state where
  "wire_example = wire_init (example_transport\<lparr>sequence_counter := 0\<rparr>) (Config_default :: unit Config)"

definition example_short :: "u32 \<Rightarrow> bytes" where
  "example_short n = encode_short_message [] n ''CH'' [1]"

lemma example_short_parses:
  "parse_datagram (take MAX_DATAGRAM_SIZE (example_short n)) =
    Ret (Some (Short \<lparr>sm_sequence_number = n, sm_channel = ''CH'', sm_data = [1]\<rparr>))"
proof -
  have "length (example_short n) \<le> MAX_DATAGRAM_SIZE"
    by (simp add: example_short_def length_encode_short_message MAX_DATAGRAM_SIZE_def)
  moreover have "wf_channel ''CH''" by (simp add: channel_eval)
  ultimately show ?thesis
    using short_message_roundtrip [of "''CH''" "[]" n "[1]"] by (simp add: example_short_def)
qed

lemma example_datagrams_short: "datagrams 33 n ''CH'' [1] = [example_short n]"
  by (simp add: datagrams_def is_short_def example_short_def)

text \<open>The bridge sends a sample in one datagram and stores its number; it is looped back, or a foreign
  message arrives.\<close>

definition wire_example_me :: SocketAddr where
  "wire_example_me = SocketAddrV4 (Ipv4Addr 127 0 0 1) 7667"

lemma example_arrives:
  "recv_iter r (Datagram (example_short n) src now now' :: unit incoming) =
     Ret (r, Some (Received \<lparr>msg_channel = ''CH'', msg_sequence_number = n, msg_data = [1]\<rparr>))"
  by (simp add: recv_iter_def example_short_parses)

lemma example_handled:
  "l2z_handle (\<lambda>_ _. True) (\<lambda>_. True) (Config_default :: unit Config) seqs
      \<lparr>msg_channel = ''CH'', msg_sequence_number = n, msg_data = [1]\<rparr> =
    (if n \<in> seqs then (seqs - {n}, SkippedLoopback n :: unit l2z_outcome)
     else (seqs, Published ''lcm/CH'' [1]))"
  by (simp add: l2z_handle_loopback l2z_handle_published_iff Config_default_def DEFAULT_KEY_PREFIX_def
      is_allowed_def plain_channel_def)

lemmas wire_example_eval =
  wire_example_def wire_init_def Let_def example_transport_def example_datagrams_short example_arrives
  example_handled example_select without_def publication_def faithful_def wire_orderly_def present_def own_flight_def
  intact_def channel_eval MAX_DATAGRAM_SIZE_def l2z_reassembler_def FragmentReassembler_new_def

lemma example_record: "record_sequence {} 0 = {0}"
  using record_subset [of "{}" 0] record_latest [of 0 "{}"] by blast

lemma example_is_short: "is_short 33 ''CH'' [1]" by (simp add: is_short_def)

lemma example_seq_of: "seq_of (example_short n) = Some n"
  by (simp add: seq_of_def example_short_parses)

lemma wire_example_loopback:
  "wire_run (\<lambda>w a. faithful (\<lambda>_ _. True) (Config_default :: unit Config) wire_example_me w a \<and>
      wire_orderly wire_example_me w a) (\<lambda>_ _. True) (\<lambda>_. True) (Config_default :: unit Config)
      wire_example_me wire_example [Take ''lcm/CH'' [1], Emit, Store, Arrive 0 3 3, Handle] =
    Some (wire_example\<lparr>w_transport := example_transport\<lparr>sequence_counter := 1\<rparr>\<rparr>)"
  by (simp add: wire_example_eval example_record example_is_short example_seq_of)

lemma wire_example_foreign:
  "wire_run (faithful (\<lambda>_ _. True) (Config_default :: unit Config) wire_example_me)
      (\<lambda>_ _. True) (\<lambda>_. True) (Config_default :: unit Config) wire_example_me wire_example
      [Take ''lcm/CH'' [1], Emit, Inject example_sender (example_short 9), Arrive 1 3 3, Store, Handle] =
    Some (wire_example\<lparr>w_transport := example_transport\<lparr>sequence_counter := 1\<rparr>, w_sent := {0},
      w_flight := [(wire_example_me, example_short 0)], w_published := [(False, ''lcm/CH'', [1])]\<rparr>)"
  by (simp add: wire_example_eval example_record example_is_short example_seq_of
      example_sender_def wire_example_me_def)

lemma wire_example_trace:
  "wire_trace (\<lambda>_ _. True) (\<lambda>_. True) (Config_default :: unit Config) wire_example_me wire_example
      [Take ''lcm/CH'' [1], Emit, Inject example_sender (example_short 9), Arrive 1 3 3, Store, Handle] =
    [Sends 0 ''lcm/CH'' [1], Hears \<lparr>msg_channel = ''CH'', msg_sequence_number = 9, msg_data = [1]\<rparr>,
     Records 0, Handles False \<lparr>msg_channel = ''CH'', msg_sequence_number = 9, msg_data = [1]\<rparr>]"
  by (simp add: wire_trace_def wire_example_eval example_record example_is_short example_seq_of
      example_sender_def wire_example_me_def)

theorem wire_refines_bridge_witness:
  "\<exists>w bs b. wire_run (faithful (\<lambda>_ _. True) (Config_default :: unit Config) wire_example_me) (\<lambda>_ _. True)
      (\<lambda>_. True) (Config_default :: unit Config) wire_example_me wire_example
      [Take ''lcm/CH'' [1], Emit, Inject example_sender (example_short 9), Arrive 1 3 3, Store, Handle] = Some w \<and>
    w_published w = [(False, ''lcm/CH'', [1])] \<and>
    bridge_run_under (\<lambda>_ _. True) (\<lambda>_ _. True) (\<lambda>_. True) (Config_default :: unit Config) bridge_init bs = Some b \<and>
    bridge_trace (\<lambda>_ _. True) (\<lambda>_. True) (Config_default :: unit Config) bridge_init bs =
      [Sends 0 ''lcm/CH'' [1], Hears \<lparr>msg_channel = ''CH'', msg_sequence_number = 9, msg_data = [1]\<rparr>,
       Records 0, Handles False \<lparr>msg_channel = ''CH'', msg_sequence_number = 9, msg_data = [1]\<rparr>] \<and>
    b_published b = [(False, ''lcm/CH'', [1])] \<and> b_sent b = {0} \<and> b_unrecorded b = None"
proof -
  let ?w = "wire_example\<lparr>w_transport := example_transport\<lparr>sequence_counter := 1\<rparr>, w_sent := {0},
      w_flight := [(wire_example_me, example_short 0)], w_published := [(False, ''lcm/CH'', [1])]\<rparr>"
  have fields: "w_published ?w = [(False, ''lcm/CH'', [1])]" "w_sent ?w = {0}" "w_ztask ?w = ZWaiting"
    by (simp_all add: wire_example_def wire_init_def)
  obtain bs b where
    "bridge_run_under (\<lambda>_ _. True) (\<lambda>_ _. True) (\<lambda>_. True) (Config_default :: unit Config) bridge_init bs = Some b"
    "bridge_trace (\<lambda>_ _. True) (\<lambda>_. True) (Config_default :: unit Config) bridge_init bs =
      wire_trace (\<lambda>_ _. True) (\<lambda>_. True) (Config_default :: unit Config) wire_example_me wire_example
        [Take ''lcm/CH'' [1], Emit, Inject example_sender (example_short 9), Arrive 1 3 3, Store, Handle]"
    "b_published b = w_published ?w" "b_sent b = w_sent ?w"
    "b_unrecorded b = (case w_ztask ?w of ZRecording n \<Rightarrow> Some n | _ \<Rightarrow> None)"
    using wire_refines_bridge [OF wire_example_foreign [unfolded wire_example_def]]
    unfolding wire_example_def by auto
  with wire_example_foreign fields show ?thesis unfolding fields wire_example_trace by auto
qed

text \<open>Claim C6. Loop freedom over single datagrams, under conditions: the environment is \<open>faithful\<close>
  as for the refinement (lossless samples, no reuse of a number that is about, no forged source
  address, no duplicated datagram) and \<open>wire_orderly\<close> (the bridge's own message is not looked up between its last
  datagram and the recording of its number; no message of others whose number is recorded is looked
  up; when a number is recorded, no number that is more than 5000 smaller is still in flight or being handled).
  Then no message of the bridge is published back, in whatever order fragments are sent, arrive, are
  lost and expire. Without \<open>wire_orderly\<close> it is false: see \<open>loopback_race\<close> and \<open>number_collision\<close>.\<close>

theorem wire_no_loop:
  assumes "wire_run (\<lambda>w a. faithful is_match config me w a \<and> wire_orderly me w a)
      is_match valid_ke config me (wire_init t config) as = Some w"
    and "sequence_counter t = 0"
  shows "\<forall>(own, ke, data) \<in> set (w_published w). \<not> own"
proof -
  from wire_run_simulated [where strict = True and is_match = is_match and config = config and me = me
      and valid_ke = valid_ke and t = t and as = as and w = w] assms obtain b where
    "reachable orderly is_match valid_ke config b" "links w b" by (auto dest: group_run_reachable)
  with reachable_loop_inv [OF this(1)] show ?thesis by (auto simp: links_def loop_inv_def)
qed

theorem wire_no_loop_witness:
  "\<exists>w. wire_run (\<lambda>w a. faithful (\<lambda>_ _. True) (Config_default :: unit Config) wire_example_me w a \<and>
      wire_orderly wire_example_me w a) (\<lambda>_ _. True) (\<lambda>_. True) (Config_default :: unit Config)
      wire_example_me wire_example [Take ''lcm/CH'' [1], Emit, Store, Arrive 0 3 3, Handle] = Some w \<and>
    sequence_counter (w_transport w) = 1 \<and> list_all (\<lambda>(own, ke, data). \<not> own) (w_published w)"
proof -
  let ?w = "wire_example\<lparr>w_transport := example_transport\<lparr>sequence_counter := 1\<rparr>\<rparr>"
  have "\<forall>(own, ke, data) \<in> set (w_published ?w). \<not> own"
    using wire_no_loop [OF wire_example_loopback [unfolded wire_example_def]] unfolding wire_example_def by simp
  then have "list_all (\<lambda>(own, ke, data). \<not> own) (w_published ?w)" unfolding list_all_iff .
  moreover have "sequence_counter (w_transport ?w) = 1" by simp
  ultimately show ?thesis using wire_example_loopback by blast
qed

end
