(* ===== verification/Network.thy ===== *)
theory Network
  imports Bridge "HOL-Library.Multiset"
begin

text \<open>
  Several bridges on one Zenoh network, each with a configuration and an LCM group, and applications
  on either side. What a bridge publishes goes into the inboxes of the subscribers it reaches; what it
  sends goes to the other members of its group. The routing of Zenoh is a parameter: \<open>matches\<close> says
  which keys a subscription covers, and \<open>reaches i j\<close> whether a publication of session \<open>i\<close> with
  destination \<open>Locality::Remote\<close> may reach a subscriber of session \<open>j\<close> that asks for origin
  \<open>Locality::Remote\<close> (\<open>lcm_to_zenoh.rs\<close> line 88, \<open>zenoh_to_lcm.rs\<close> line 47).
\<close>

section \<open>States and steps\<close>

text \<open>\<open>carried\<close> remembers the samples that each bridge has sent to its group; no step reads it.\<close>

record network =
  site :: "nat \<Rightarrow> bridge"
  inbox :: "nat \<Rightarrow> (KeyExpr \<times> bytes) list"
  carried :: "nat \<Rightarrow> (KeyExpr \<times> bytes) list"

definition network_init :: network where
  "network_init = \<lparr>site = (\<lambda>_. bridge_init), inbox = (\<lambda>_. []), carried = (\<lambda>_. [])\<rparr>"

text \<open>\<open>At\<close> is a step of the bridge that takes no sample; a sample is taken and sent, or skipped, or its
  sending fails.\<close>

datatype 'g network_action =
    At nat action
  | SampleAt nat
  | SampleFails nat
  | LcmApp 'g LcmMessage
  | ZenohApp KeyExpr bytes

definition takes_sample :: "action \<Rightarrow> bool" where
  "takes_sample a = (case a of Send ke payload \<Rightarrow> True | FailSend \<Rightarrow> True | Foreign m \<Rightarrow> True | _ \<Rightarrow> False)"

text \<open>A message appears at the members of its group but its sender.\<close>

definition multicast :: "(nat \<Rightarrow> 'g) \<Rightarrow> 'g \<Rightarrow> nat option \<Rightarrow> LcmMessage \<Rightarrow> (nat \<Rightarrow> bridge) \<Rightarrow> nat \<Rightarrow> bridge" where
  "multicast grp g sender m sites = (\<lambda>j.
     if grp j = g \<and> sender \<noteq> Some j
     then (sites j)\<lparr>b_group := b_group (sites j) @ [(False, m)]\<rparr> else sites j)"

text \<open>The samples that the subscriber of \<open>j\<close> gets of what \<open>i\<close> publishes.\<close>

definition received_by ::
  "(nat \<Rightarrow> nat \<Rightarrow> bool) \<Rightarrow> (KeyExpr \<Rightarrow> KeyExpr \<Rightarrow> bool) \<Rightarrow> (nat \<Rightarrow> 're Config) \<Rightarrow> nat \<Rightarrow> nat
     \<Rightarrow> (bool \<times> KeyExpr \<times> bytes) list \<Rightarrow> (KeyExpr \<times> bytes) list" where
  "received_by reaches matches config i j pubs =
     filter (\<lambda>(ke, payload). reaches i j \<and> matches (sub_expr (config j)) ke) (map snd pubs)"

fun network_exec ::
  "('re \<Rightarrow> string \<Rightarrow> bool) \<Rightarrow> (string \<Rightarrow> bool) \<Rightarrow> (nat \<Rightarrow> nat \<Rightarrow> bool) \<Rightarrow> (KeyExpr \<Rightarrow> KeyExpr \<Rightarrow> bool)
     \<Rightarrow> (nat \<Rightarrow> 're Config) \<Rightarrow> (nat \<Rightarrow> 'g) \<Rightarrow> network \<Rightarrow> 'g network_action \<Rightarrow> network option"
where
  "network_exec is_match valid_ke reaches matches config grp s (At i a) =
     (if takes_sample a then None
      else map_option (\<lambda>b.
        let pubs = drop (length (b_published (site s i))) (b_published b)
        in s\<lparr>site := (site s)(i := b),
             inbox := (\<lambda>j. inbox s j @ received_by reaches matches config i j pubs)\<rparr>)
        (bridge_exec is_match valid_ke (config i) (site s i) a))"
| "network_exec is_match valid_ke reaches matches config grp s (SampleAt i) =
     (case inbox s i of
        [] \<Rightarrow> None
      | (ke, payload) # rest \<Rightarrow>
          let inbox' = (inbox s)(i := rest)
          in (case z2l_select is_match (config i) ke :: unit z2l_outcome + string of
                Inl skipped \<Rightarrow>
                  if b_unrecorded (site s i) = None then Some (s\<lparr>inbox := inbox'\<rparr>) else None
              | Inr channel \<Rightarrow>
                  map_option (\<lambda>b.
                    let m = \<lparr>msg_channel = channel, msg_sequence_number = b_counter (site s i),
                             msg_data = payload\<rparr>
                    in \<lparr>site = multicast grp (grp i) (Some i) m ((site s)(i := b)), inbox = inbox',
                        carried = (carried s)(i := carried s i @ [(ke, payload)])\<rparr>)
                    (bridge_exec is_match valid_ke (config i) (site s i) (Send ke payload))))"
| "network_exec is_match valid_ke reaches matches config grp s (SampleFails i) =
     (case inbox s i of
        [] \<Rightarrow> None
      | _ # rest \<Rightarrow>
          map_option (\<lambda>b. s\<lparr>site := (site s)(i := b), inbox := (inbox s)(i := rest)\<rparr>)
            (bridge_exec is_match valid_ke (config i) (site s i) FailSend))"
| "network_exec is_match valid_ke reaches matches config grp s (LcmApp g m) =
     Some (s\<lparr>site := multicast grp g None m (site s)\<rparr>)"
| "network_exec is_match valid_ke reaches matches config grp s (ZenohApp ke payload) =
     Some (s\<lparr>inbox := (\<lambda>j. if matches (sub_expr (config j)) ke then inbox s j @ [(ke, payload)] else inbox s j)\<rparr>)"

text \<open>The environment of each bridge is orderly.\<close>

definition network_orderly :: "network \<Rightarrow> 'g network_action \<Rightarrow> bool" where
  "network_orderly s a =
     (case a of
        At i a \<Rightarrow> orderly (site s i) a
      | SampleAt i \<Rightarrow> b_counter (site s i) \<notin> set (own_seqs (site s i))
      | _ \<Rightarrow> True)"

text \<open>A run while the environment \<open>env\<close> allows every step.\<close>

definition network_run ::
  "(network \<Rightarrow> 'g network_action \<Rightarrow> bool) \<Rightarrow> ('re \<Rightarrow> string \<Rightarrow> bool) \<Rightarrow> (string \<Rightarrow> bool) \<Rightarrow> (nat \<Rightarrow> nat \<Rightarrow> bool)
     \<Rightarrow> (KeyExpr \<Rightarrow> KeyExpr \<Rightarrow> bool) \<Rightarrow> (nat \<Rightarrow> 're Config) \<Rightarrow> (nat \<Rightarrow> 'g) \<Rightarrow> network \<Rightarrow> 'g network_action list
     \<Rightarrow> network option"
where
  "network_run env is_match valid_ke reaches matches config grp =
     guarded_run env (network_exec is_match valid_ke reaches matches config grp)"

lemma network_run_simps [simp]:
  "network_run env is_match valid_ke reaches matches config grp s [] = Some s"
  "network_run env is_match valid_ke reaches matches config grp s (a # as) =
     (if env s a
      then Option.bind (network_exec is_match valid_ke reaches matches config grp s a)
        (\<lambda>s. network_run env is_match valid_ke reaches matches config grp s as)
      else None)"
  by (simp_all add: network_run_def)

lemmas network_run_append = guarded_run_append
  [of env "network_exec is_match valid_ke reaches matches config grp", folded network_run_def]
  for env is_match valid_ke reaches matches config grp

section \<open>Every site is a bridge\<close>

lemma reachable_exec:
  "reachable orderly is_match valid_ke config s \<Longrightarrow> orderly s a \<Longrightarrow>
     bridge_exec is_match valid_ke config s a = Some t \<Longrightarrow> reachable orderly is_match valid_ke config t"
  by (rule reachable.step) (simp_all add: bridge_step_exec)

lemma reachable_multicast:
  assumes "reachable orderly is_match valid_ke config (sites j)"
  shows "reachable orderly is_match valid_ke config (multicast grp g sender m sites j)"
  using reachable_exec [OF assms, of "Foreign m"] assms by (simp add: multicast_def orderly_def)

lemma network_step_sites:
  assumes "\<forall>i. reachable orderly is_match valid_ke (config i) (site s i)"
    and "network_exec is_match valid_ke reaches matches config grp s a = Some s'"
    and "network_orderly s a"
  shows "\<forall>i. reachable orderly is_match valid_ke (config i) (site s' i)"
proof (cases a)
  case (At i a')
  then obtain b where "bridge_exec is_match valid_ke (config i) (site s i) a' = Some b" "site s' = (site s)(i := b)"
    using assms(2) by (auto simp: Let_def split: if_splits simp del: bridge_exec.simps)
  with reachable_exec [OF spec [OF assms(1)], of i a' b] assms(1,3) At show ?thesis
    by (simp add: network_orderly_def)
next
  case (SampleAt i)
  then obtain ke payload rest where box: "inbox s i = (ke, payload) # rest"
    using assms(2) by (auto split: list.splits)
  show ?thesis
  proof (cases "z2l_select is_match (config i) ke :: unit z2l_outcome + string")
    case (Inl skipped)
    with SampleAt box assms show ?thesis by (auto simp: Let_def split: if_splits)
  next
    case (Inr channel)
    with SampleAt box assms(2) obtain b where
      b: "bridge_exec is_match valid_ke (config i) (site s i) (Send ke payload) = Some b"
      and s': "site s' = multicast grp (grp i) (Some i) \<lparr>msg_channel = channel,
        msg_sequence_number = b_counter (site s i), msg_data = payload\<rparr> ((site s)(i := b))"
      by (auto simp: Let_def simp del: bridge_exec.simps)
    have "reachable orderly is_match valid_ke (config i) b"
      using reachable_exec [OF spec [OF assms(1)] _ b] assms(3) SampleAt
      by (simp add: network_orderly_def orderly_def)
    then have "reachable orderly is_match valid_ke (config j) (((site s)(i := b)) j)" for j
      using assms(1) by simp
    then show ?thesis unfolding s' by (blast intro: reachable_multicast)
  qed
next
  case (SampleFails i)
  with assms have "network_exec is_match valid_ke reaches matches config grp s (SampleFails i) = Some s'" by simp
  then obtain b where "bridge_exec is_match valid_ke (config i) (site s i) FailSend = Some b"
    "site s' = (site s)(i := b)"
    by (auto split: list.splits simp del: bridge_exec.simps)
  with reachable_exec [OF spec [OF assms(1)], of i FailSend b] assms(1) show ?thesis
    by (simp add: orderly_def)
next
  case (LcmApp g m)
  then have "site s' = multicast grp g None m (site s)" using assms(2) by auto
  with assms(1) show ?thesis by (metis reachable_multicast)
next
  case (ZenohApp ke payload)
  with assms show ?thesis by auto
qed

interpretation sites: preserved network_orderly "network_exec is_match valid_ke reaches matches config grp"
  "\<lambda>s. \<forall>i. reachable orderly is_match valid_ke (config i) (site s i)"
  for is_match valid_ke reaches matches config grp
  by unfold_locales (rule network_step_sites)

section \<open>What a site still owes\<close>

definition as_sample :: "'re Config \<Rightarrow> LcmMessage \<Rightarrow> KeyExpr \<times> bytes" where
  "as_sample config m = (key_prefix config @ ''/'' @ msg_channel m, msg_data m)"

text \<open>The publications of a bridge together with those of the foreign messages in its group.\<close>

definition owed :: "'re Config \<Rightarrow> bridge \<Rightarrow> (KeyExpr \<times> bytes) multiset" where
  "owed config b = mset (map snd (b_published b)) +
     image_mset (\<lambda>(_, m). as_sample config m) (mset (filter (\<lambda>(own, _). \<not> own) (b_group b)))"

lemma owed_foreign:
  "owed config (b\<lparr>b_group := b_group b @ [(False, m)]\<rparr>) = add_mset (as_sample config m) (owed config b)"
  by (simp add: owed_def)

lemma filter_without_mset:
  assumes "i < length xs"
  shows "mset (filter P xs) = mset (filter P (without i xs)) + (if P (xs ! i) then {#xs ! i#} else {#})"
proof -
  obtain ys zs where "filter P xs = ys @ (if P (xs ! i) then [xs ! i] else []) @ zs"
    "filter P (without i xs) = ys @ zs"
    using filter_without [OF assms] by blast
  then show ?thesis by simp
qed

text \<open>A bridge on its own never owes more than before: what it publishes was a foreign message.\<close>

lemma owed_step:
  assumes "reachable orderly is_match valid_ke config b" and "orderly b a"
    and exec: "bridge_exec is_match valid_ke config b a = Some b'" and "\<not> (\<exists>m. a = Foreign m)"
  shows "owed config b' \<subseteq># owed config b"
proof (cases a)
  case (Deliver i)
  obtain own m where entry: "b_group b ! i = (own, m)" by fastforce
  obtain seqs out where h: "l2z_handle is_match valid_ke config (b_sent b) m = (seqs, out :: unit l2z_outcome)"
    by fastforce
  from exec Deliver entry h have i: "i < length (b_group b)"
    and b': "b' = b\<lparr>b_sent := seqs, b_group := without i (b_group b),
      b_published := b_published b @ publication own out\<rparr>"
    by (auto split: if_splits)
  have foreign: "\<not> fst p" if "p \<in> set (b_published b')" for p
    using reachable_loop_inv [OF reachable_exec [OF assms(1,2) exec]] that by (simp add: loop_inv_def)
  have quiet: "publication own out = []" if own
  proof (cases out)
    case (Published ke data)
    with that foreign [of "(True, ke, data)"] show ?thesis by (simp add: b' publication_def)
  qed (simp_all add: publication_def)
  have new: "mset (map snd (publication own out)) \<subseteq># {#as_sample config m#}"
    using h by (cases out) (auto simp: publication_def l2z_handle_published_iff as_sample_def)
  note split = filter_without_mset [OF i, of "\<lambda>(own, _). \<not> own", unfolded entry]
  show ?thesis
  proof (cases own)
    case True
    with quiet split show ?thesis by (simp add: owed_def b')
  next
    case False
    with split new show ?thesis by (simp add: owed_def b' add.assoc [symmetric] add.commute)
  qed
next
  case (Lose i)
  with exec have i: "i < length (b_group b)" and b': "b' = b\<lparr>b_group := without i (b_group b)\<rparr>"
    by (auto split: if_splits)
  show ?thesis
    using filter_without_mset [OF i, of "\<lambda>(own, _). \<not> own"] by (auto simp: owed_def b' image_mset_subseteq_mono)
qed (use assms(3,4) in \<open>auto simp: owed_def Let_def split: option.splits sum.splits if_splits\<close>)

text \<open>The messages that LCM applications send to a group in a run, and the samples of Zenoh
  applications.\<close>

fun apps :: "'g \<Rightarrow> 'g network_action list \<Rightarrow> LcmMessage list" where
  "apps g [] = []"
| "apps g (LcmApp g' m # as) = (if g' = g then m # apps g as else apps g as)"
| "apps g (_ # as) = apps g as"

fun zenoh_apps :: "'g network_action list \<Rightarrow> (KeyExpr \<times> bytes) list" where
  "zenoh_apps [] = []"
| "zenoh_apps (ZenohApp ke payload # as) = (ke, payload) # zenoh_apps as"
| "zenoh_apps (_ # as) = zenoh_apps as"

lemma owed_network_step:
  assumes sites: "\<forall>i. reachable orderly is_match valid_ke (config i) (site s i)" and "inj grp"
    and exec: "network_exec is_match valid_ke reaches matches config grp s a = Some s'"
    and orderly: "network_orderly s a"
  shows "owed (config i) (site s' i) \<subseteq>#
    owed (config i) (site s i) + image_mset (as_sample (config i)) (mset (apps (grp i) [a]))"
proof (cases a)
  case (At j a')
  then obtain b where b: "bridge_exec is_match valid_ke (config j) (site s j) a' = Some b"
    and s': "site s' = (site s)(j := b)" and "\<not> takes_sample a'"
    using exec by (auto simp: Let_def split: if_splits simp del: bridge_exec.simps)
  then have "\<not> (\<exists>m. a' = Foreign m)" by (auto simp: takes_sample_def)
  from owed_step [OF spec [OF sites] _ b this] orderly At show ?thesis
    by (simp add: network_orderly_def s')
next
  case (SampleAt j)
  then obtain ke payload rest where box: "inbox s j = (ke, payload) # rest"
    using exec by (auto split: list.splits)
  show ?thesis
  proof (cases "z2l_select is_match (config j) ke :: unit z2l_outcome + string")
    case (Inl skipped)
    with SampleAt box exec show ?thesis by (auto simp: Let_def split: if_splits)
  next
    case (Inr channel)
    with SampleAt box exec obtain b m where
      b: "bridge_exec is_match valid_ke (config j) (site s j) (Send ke payload) = Some b"
      and s': "site s' = multicast grp (grp j) (Some j) m ((site s)(j := b))"
      by (auto simp: Let_def simp del: bridge_exec.simps)
    have "grp i = grp j \<Longrightarrow> j = i" using assms(2) by (simp add: inj_eq)
    then have "site s' i = ((site s)(j := b)) i" by (auto simp: s' multicast_def)
    moreover have "owed (config j) b \<subseteq># owed (config j) (site s j)"
      using orderly SampleAt
      by (intro owed_step [OF spec [OF sites] _ b]) (simp_all add: network_orderly_def orderly_def)
    ultimately show ?thesis by (simp add: SampleAt)
  qed
next
  case (SampleFails j)
  with exec have "network_exec is_match valid_ke reaches matches config grp s (SampleFails j) = Some s'" by simp
  then obtain b where b: "bridge_exec is_match valid_ke (config j) (site s j) FailSend = Some b"
    and s': "site s' = (site s)(j := b)"
    by (auto split: list.splits simp del: bridge_exec.simps)
  have "owed (config j) b \<subseteq># owed (config j) (site s j)"
    by (intro owed_step [OF spec [OF sites] _ b]) (simp_all add: orderly_def)
  then show ?thesis by (simp add: s' SampleFails)
next
  case (LcmApp g m)
  with exec have "site s' = multicast grp g None m (site s)" by auto
  then show ?thesis by (simp add: multicast_def owed_foreign LcmApp)
next
  case (ZenohApp ke payload)
  with exec show ?thesis by auto
qed

lemma apps_Cons: "apps g (a # as) = apps g [a] @ apps g as"
  by (cases a) simp_all

lemma owed_network_run:
  assumes "inj grp" and "\<forall>i. reachable orderly is_match valid_ke (config i) (site s i)"
    and "network_run network_orderly is_match valid_ke reaches matches config grp s as = Some s'"
  shows "owed (config i) (site s' i) \<subseteq>#
    owed (config i) (site s i) + image_mset (as_sample (config i)) (mset (apps (grp i) as))"
  using assms(2,3)
proof (induction as arbitrary: s)
  case (Cons a as)
  then obtain s1 where 1: "network_orderly s a"
    "network_exec is_match valid_ke reaches matches config grp s a = Some s1"
    "network_run network_orderly is_match valid_ke reaches matches config grp s1 as = Some s'"
    unfolding network_run_def guarded_run_Cons_Some by blast
  note first = Cons.IH [OF sites.step_preserves [OF Cons.prems(1) 1(1,2)] 1(3)]
  have "owed (config i) (site s1 i) + image_mset (as_sample (config i)) (mset (apps (grp i) as)) \<subseteq>#
      (owed (config i) (site s i) + image_mset (as_sample (config i)) (mset (apps (grp i) [a]))) +
      image_mset (as_sample (config i)) (mset (apps (grp i) as))"
    using owed_network_step [OF Cons.prems(1) assms(1) 1(2,1), of i] by simp
  from subset_mset.order_trans [OF first this] show ?case by (simp add: apps_Cons [of _ a as] add.assoc)
qed simp

section \<open>Where the samples of a bridge come from\<close>

text \<open>What is in the inbox of a bridge, and what it has carried to its group, was published by a Zenoh
  application or by a bridge whose publications reach it.\<close>

definition source :: "(nat \<Rightarrow> nat \<Rightarrow> bool) \<Rightarrow> (KeyExpr \<times> bytes) set \<Rightarrow> (nat \<Rightarrow> bridge) \<Rightarrow> nat
    \<Rightarrow> (KeyExpr \<times> bytes) set" where
  "source reaches Z sites i = Z \<union> {x. \<exists>j. reaches j i \<and> x \<in> snd ` set (b_published (sites j))}"

definition sourced :: "(nat \<Rightarrow> nat \<Rightarrow> bool) \<Rightarrow> (KeyExpr \<times> bytes) set \<Rightarrow> network \<Rightarrow> bool" where
  "sourced reaches Z s \<longleftrightarrow>
     (\<forall>i. set (inbox s i) \<union> set (carried s i) \<subseteq> source reaches Z (site s) i)"

lemma sourced_mono:
  assumes "sourced reaches Z s"
    and pubs: "\<And>j. set (b_published (site s j)) \<subseteq> set (b_published (site s' j))"
    and new: "\<And>i. set (inbox s' i) \<union> set (carried s' i) \<subseteq>
      set (inbox s i) \<union> set (carried s i) \<union> source reaches Z (site s') i"
  shows "sourced reaches Z s'"
proof -
  have "source reaches Z (site s) i \<subseteq> source reaches Z (site s') i" for i
    using pubs by (fastforce simp: source_def)
  with assms(1) new show ?thesis unfolding sourced_def by blast
qed

lemma published_grows:
  assumes "bridge_exec is_match valid_ke config b a = Some b'"
  shows "\<exists>pubs. b_published b' = b_published b @ pubs"
  using assms by (cases a) (auto simp: Let_def split: option.splits sum.splits if_splits prod.splits)

lemma received_by_subset:
  "set (received_by reaches matches config i j pubs) \<subseteq> {x. reaches i j \<and> x \<in> snd ` set pubs}"
  by (force simp: received_by_def)

lemma sourced_step:
  assumes "sourced reaches Z s" and "set (zenoh_apps [a]) \<subseteq> Z"
    and exec: "network_exec is_match valid_ke reaches matches config grp s a = Some s'"
  shows "sourced reaches Z s'"
proof (cases a)
  case (At i a')
  then obtain b where b: "bridge_exec is_match valid_ke (config i) (site s i) a' = Some b"
    and s': "s' = s\<lparr>site := (site s)(i := b), inbox := (\<lambda>j. inbox s j @
      received_by reaches matches config i j (drop (length (b_published (site s i))) (b_published b)))\<rparr>"
    using exec by (auto simp: Let_def split: if_splits simp del: bridge_exec.simps)
  obtain pubs where pubs: "b_published b = b_published (site s i) @ pubs"
    using published_grows [OF b] by blast
  have "set (received_by reaches matches config i j pubs) \<subseteq> source reaches Z (site s') j" for j
    using received_by_subset [of reaches matches config i j pubs] by (force simp: source_def s' pubs)
  then show ?thesis by (intro sourced_mono [OF assms(1)]) (auto simp: s' pubs)
next
  case (SampleAt i)
  then obtain ke payload rest where box: "inbox s i = (ke, payload) # rest"
    using exec by (auto split: list.splits)
  have pub: "b_published (multicast grp g sender m sites j) = b_published (sites j)" for g sender m sites j
    by (simp add: multicast_def)
  show ?thesis
  proof (cases "z2l_select is_match (config i) ke :: unit z2l_outcome + string")
    case (Inl skipped)
    with SampleAt box exec have "s' = s\<lparr>inbox := (inbox s)(i := rest)\<rparr>" by (auto simp: Let_def split: if_splits)
    with box show ?thesis by (intro sourced_mono [OF assms(1)]) auto
  next
    case (Inr channel)
    with SampleAt box exec obtain b m where
      b: "bridge_exec is_match valid_ke (config i) (site s i) (Send ke payload) = Some b"
      and s': "s' = \<lparr>site = multicast grp (grp i) (Some i) m ((site s)(i := b)), inbox = (inbox s)(i := rest),
        carried = (carried s)(i := carried s i @ [(ke, payload)])\<rparr>"
      by (auto simp: Let_def simp del: bridge_exec.simps)
    have "b_published b = b_published (site s i)" using b Inr by (auto split: option.splits)
    with box show ?thesis by (intro sourced_mono [OF assms(1)]) (auto simp: s' pub)
  qed
next
  case (SampleFails i)
  with exec have "network_exec is_match valid_ke reaches matches config grp s (SampleFails i) = Some s'" by simp
  then obtain x rest b where box: "inbox s i = x # rest"
    and b: "bridge_exec is_match valid_ke (config i) (site s i) FailSend = Some b"
    and s': "s' = s\<lparr>site := (site s)(i := b), inbox := (inbox s)(i := rest)\<rparr>"
    by (auto split: list.splits simp del: bridge_exec.simps)
  have "b_published b = b_published (site s i)" using b by (auto split: if_splits)
  with box show ?thesis by (intro sourced_mono [OF assms(1)]) (auto simp: s')
next
  case (LcmApp g m)
  with exec show ?thesis by (intro sourced_mono [OF assms(1)]) (auto simp: multicast_def)
next
  case (ZenohApp ke payload)
  with exec assms(2) show ?thesis by (intro sourced_mono [OF assms(1)]) (auto simp: source_def split: if_splits)
qed

interpretation sources: preserved "\<lambda>s a. network_orderly s a \<and> set (zenoh_apps [a]) \<subseteq> Z"
  "network_exec is_match valid_ke reaches matches config grp" "sourced reaches Z"
  for Z is_match valid_ke reaches matches config grp
  by unfold_locales (blast intro: sourced_step)

lemma zenoh_apps_all: "list_all (\<lambda>a. set (zenoh_apps [a]) \<subseteq> set (zenoh_apps as)) as"
proof -
  have "set (zenoh_apps [a]) \<subseteq> set (zenoh_apps as)" if "a \<in> set as" for a
    using that
  proof (induction as)
    case (Cons b as)
    have "set (zenoh_apps (b # as)) = set (zenoh_apps [b]) \<union> set (zenoh_apps as)" by (cases b) simp_all
    with Cons show ?case by auto
  qed simp
  then show ?thesis by (simp add: list_all_iff)
qed

lemma sourced_run:
  assumes "network_run network_orderly is_match valid_ke reaches matches config grp network_init as = Some s"
  shows "sourced reaches (set (zenoh_apps as)) s"
  by (rule sources.run_preserves [OF _ guarded_run_all [OF assms [unfolded network_run_def] zenoh_apps_all]])
    (simp add: sourced_def network_init_def)

section \<open>Properties\<close>

text \<open>Claim C7. Bridges on separate LCM groups, under conditions on every step (\<open>network_orderly\<close>): at each
  bridge no own message is handled before its number is recorded, no message of others carries a
  recorded number, no number is reused while its message is in the group, and none stays there while
  5000 more are sent. Then in every run each bridge publishes only messages that LCM applications sent to
  its group, each at most once; and, as Zenoh does not deliver a session's remote publications to that
  session, a bridge sends to its group only what a Zenoh application published or an LCM application
  sent to another group. Without the conditions at one bridge it is false: see \<open>loopback_race\<close> and
  \<open>number_collision\<close>; without separate groups, see \<open>shared_group_circulates\<close>.\<close>

theorem islands_do_not_echo:
  assumes "network_run network_orderly is_match valid_ke reaches matches config grp network_init as = Some s"
    and "inj grp" and "\<forall>i. \<not> reaches i i"
  shows "mset (map snd (b_published (site s i))) \<subseteq>#
      image_mset (as_sample (config i)) (mset (apps (grp i) as)) \<and>
    set (carried s i) \<subseteq> set (zenoh_apps as) \<union>
      (\<Union>j \<in> - {i}. as_sample (config j) ` set (apps (grp j) as))"
proof -
  have "\<forall>i. reachable orderly is_match valid_ke (config i) (site network_init i)"
    by (simp add: network_init_def reachable.init)
  note owed = owed_network_run [OF assms(2) this assms(1)]
  have pub: "mset (map snd (b_published (site s j))) \<subseteq>#
      image_mset (as_sample (config j)) (mset (apps (grp j) as))" for j
  proof -
    have "mset (map snd (b_published (site s j))) \<subseteq># owed (config j) (site s j)" by (simp add: owed_def)
    also have "\<dots> \<subseteq># owed (config j) (site network_init j) +
        image_mset (as_sample (config j)) (mset (apps (grp j) as))" using owed by blast
    finally show ?thesis by (simp add: owed_def network_init_def bridge_init_def)
  qed
  have "set (carried s i) \<subseteq> source reaches (set (zenoh_apps as)) (site s) i"
    using sourced_run [OF assms(1)] by (simp add: sourced_def)
  also have "\<dots> \<subseteq> set (zenoh_apps as) \<union>
      (\<Union>j \<in> - {i}. as_sample (config j) ` set (apps (grp j) as))"
  proof -
    have "snd ` set (b_published (site s j)) \<subseteq> as_sample (config j) ` set (apps (grp j) as)" for j
      using set_mset_mono [OF pub [of j]] by simp
    with assms(3) show ?thesis unfolding source_def by fast
  qed
  finally show ?thesis using pub by blast
qed

text \<open>A lap of a message between two bridges on one group: the first publishes what it has received, the
  second sends it to the group, where the first receives it under another number.\<close>

definition lap :: "'g network_action list" where
  "lap = [At 0 (Deliver 0), SampleAt 1, At 1 Record, At 1 (Deliver 0)]"

definition circling :: "string \<Rightarrow> bytes \<Rightarrow> KeyExpr \<Rightarrow> nat \<Rightarrow> network \<Rightarrow> bool" where
  "circling c d ke k s \<longleftrightarrow>
     (\<exists>n. b_group (site s 0) = [(False, \<lparr>msg_channel = c, msg_sequence_number = n, msg_data = d\<rparr>)]) \<and>
     b_sent (site s 0) = {} \<and> b_published (site s 0) = replicate k (False, ke, d) \<and>
     b_sent (site s 1) = {} \<and> b_unrecorded (site s 1) = None \<and> b_group (site s 1) = [] \<and>
     inbox s 1 = [] \<and> carried s 1 = replicate k (ke, d)"

lemma record_first [simp]: "record_sequence {} n = {n}"
  using record_subset [of "{}" n] record_latest [of n "{}"] by blast

lemma lap_circling:
  fixes grp :: "nat \<Rightarrow> 'g"
  assumes "circling c d ke k s" and "grp 0 = grp 1" and "reaches 0 1" and "matches (sub_expr (config 1)) ke"
    and "\<And>n. l2z_handle is_match valid_ke (config 0) {} \<lparr>msg_channel = c, msg_sequence_number = n, msg_data = d\<rparr> =
      ({}, Published ke d :: unit l2z_outcome)"
    and "z2l_select is_match (config 1) ke = (Inr c :: unit z2l_outcome + string)"
  shows "\<exists>s'. network_run network_orderly is_match valid_ke reaches matches config grp s lap = Some s' \<and> circling c d ke (Suc k) s'"
proof -
  from assms(1) obtain n where
    0: "b_group (site s 0) = [(False, \<lparr>msg_channel = c, msg_sequence_number = n, msg_data = d\<rparr>)]"
      "b_sent (site s 0) = {}" "b_published (site s 0) = replicate k (False, ke, d)"
    and 1: "b_sent (site s 1) = {}" "b_unrecorded (site s 1) = None" "b_group (site s 1) = []"
      "inbox s 1 = []" "carried s 1 = replicate k (ke, d)"
    by (auto simp: circling_def)
  let ?net = "network_exec is_match valid_ke reaches matches config grp"
  define q where "q = b_counter (site s 1)"
  define m where "m = \<lparr>msg_channel = c, msg_sequence_number = q, msg_data = d\<rparr>"
  define b0 where "b0 = (site s 0)\<lparr>b_sent := {}, b_group := [],
    b_published := replicate k (False, ke, d) @ [(False, ke, d)]\<rparr>"
  define s1 where "s1 = s\<lparr>site := (site s)(0 := b0),
    inbox := (\<lambda>j. inbox s j @ received_by reaches matches config 0 j [(False, ke, d)])\<rparr>"
  have step1: "network_orderly s (At 0 (Deliver 0) :: 'g network_action)" "?net s (At 0 (Deliver 0)) = Some s1"
    using 0 assms(5) by (simp_all add: network_orderly_def orderly_def takes_sample_def without_def
        publication_def b0_def s1_def)
  have box1: "inbox s1 1 = [(ke, d)]" using 1 assms(3,4) by (simp add: s1_def received_by_def)
  define b1 where "b1 = (site s 1)\<lparr>b_counter := q + 1, b_unrecorded := Some q, b_group := [(True, m)]\<rparr>"
  define s2 where "s2 = \<lparr>site = multicast grp (grp 1) (Some 1) m ((site s1)(1 := b1)), inbox = (inbox s1)(1 := []),
    carried = (carried s)(1 := replicate (Suc k) (ke, d))\<rparr>"
  have same1: "site s1 1 = site s 1" "carried s1 = carried s" by (simp_all add: s1_def)
  have step2: "network_orderly s1 (SampleAt 1 :: 'g network_action)" "?net s1 (SampleAt 1) = Some s2"
    using 1 box1 assms(6) by (simp_all add: network_orderly_def own_seqs_def same1 b1_def s2_def m_def q_def
        replicate_append_same del: One_nat_def)
  have site2: "site s2 1 = b1" "site s2 0 = b0\<lparr>b_group := [(False, m)]\<rparr>"
    using assms(2) by (simp_all add: s2_def multicast_def s1_def b0_def)
  define b2 where "b2 = b1\<lparr>b_sent := {q}, b_unrecorded := None\<rparr>"
  define s3 where "s3 = s2\<lparr>site := (site s2)(1 := b2), inbox := (\<lambda>j. inbox s2 j @ [])\<rparr>"
  have step3: "network_orderly s2 (At 1 Record :: 'g network_action)" "?net s2 (At 1 Record) = Some s3"
    using 1(1) by (simp_all add: network_orderly_def orderly_def own_seqs_def site2 b1_def m_def takes_sample_def
        b2_def s3_def received_by_def del: One_nat_def)
  define s4 where "s4 = s3\<lparr>site := (site s3)(1 := b2\<lparr>b_sent := {}, b_group := []\<rparr>),
    inbox := (\<lambda>j. inbox s3 j @ [])\<rparr>"
  have handle: "l2z_handle is_match valid_ke (config 1) {q} m = ({}, SkippedLoopback q :: unit l2z_outcome)"
    by (simp add: l2z_handle_loopback m_def)
  have step4: "network_orderly s3 (At 1 (Deliver 0) :: 'g network_action)" "?net s3 (At 1 (Deliver 0)) = Some s4"
    using handle by (simp_all add: network_orderly_def orderly_def s3_def b2_def b1_def takes_sample_def
        without_def publication_def received_by_def s4_def del: One_nat_def)
  have "network_run network_orderly is_match valid_ke reaches matches config grp s lap = Some s4"
    using step1 step2 step3 step4 by (simp add: lap_def del: network_exec.simps)
  moreover have "circling c d ke (Suc k) s4"
    using 0 1 site2 by (simp add: circling_def s4_def s3_def b2_def b1_def b0_def m_def s2_def replicate_append_same del: One_nat_def)
  ultimately show ?thesis by blast
qed

lemma laps_circling:
  assumes "circling c d ke k s" and "grp 0 = grp 1" and "reaches 0 1" and "matches (sub_expr (config 1)) ke"
    and "\<And>n. l2z_handle is_match valid_ke (config 0) {} \<lparr>msg_channel = c, msg_sequence_number = n, msg_data = d\<rparr> =
      ({}, Published ke d :: unit l2z_outcome)"
    and "z2l_select is_match (config 1) ke = (Inr c :: unit z2l_outcome + string)"
  shows "\<exists>s'. network_run network_orderly is_match valid_ke reaches matches config grp s (concat (replicate j lap)) = Some s' \<and>
    circling c d ke (k + j) s'"
  using assms(1)
proof (induction j arbitrary: k s)
  case (Suc j)
  obtain s1 where 1: "network_run network_orderly is_match valid_ke reaches matches config grp s lap = Some s1"
    "circling c d ke (Suc k) s1"
    using lap_circling [where grp = grp and reaches = reaches and config = config and matches = matches, OF Suc.prems assms(2-6)] by blast
  from Suc.IH [OF 1(2)] 1(1) show ?case by (simp add: network_run_append)
qed simp

text \<open>Claim C33. Two bridges on one group with one key prefix circulate a message for ever: a single
  message of an LCM application, in a run in which both bridges recognise and drop every loopback,
  is published and sent again any number of times. The sent numbers tell a bridge its own messages
  only.\<close>

theorem shared_group_circulates:
  assumes "grp 0 = grp 1" and "reaches 0 1" and "key_prefix (config 1) = key_prefix (config 0)"
    and "matches (sub_expr (config 1)) (key_prefix (config 0) @ ''/'' @ c)"
    and "is_allowed is_match c (config 0)" and "is_allowed is_match c (config 1)"
    and "plain_channel c" and "c \<noteq> []" and "valid_ke (key_prefix (config 0) @ ''/'' @ c)"
  shows "\<exists>as s. network_run network_orderly is_match valid_ke reaches matches config grp network_init as = Some s \<and>
    apps (grp 0) as = [\<lparr>msg_channel = c, msg_sequence_number = n, msg_data = d\<rparr>] \<and> zenoh_apps as = [] \<and>
    b_published (site s 0) = replicate k (False, key_prefix (config 0) @ ''/'' @ c, d) \<and>
    carried s 1 = replicate k (key_prefix (config 0) @ ''/'' @ c, d)"
proof -
  let ?m = "\<lparr>msg_channel = c, msg_sequence_number = n, msg_data = d\<rparr>"
    and ?ke = "key_prefix (config 0) @ ''/'' @ c"
  let ?start = "[LcmApp (grp 0) ?m, At 1 (Lose 0)]"
  have handle: "l2z_handle is_match valid_ke (config 0) {} \<lparr>msg_channel = c, msg_sequence_number = q, msg_data = d\<rparr> =
      ({}, Published ?ke d :: unit l2z_outcome)" for q
    using assms(5,7,9) by (simp add: l2z_handle_published_iff)
  have select: "z2l_select is_match (config 1) ?ke = (Inr c :: unit z2l_outcome + string)"
    using assms(3,6,8) by (simp add: z2l_select_Inr_iff)
  obtain s where s: "network_run network_orderly is_match valid_ke reaches matches config grp network_init ?start = Some s"
    and "circling c d ?ke 0 s"
    using assms(1) by (auto simp: network_orderly_def orderly_def network_init_def bridge_init_def multicast_def
        takes_sample_def without_def received_by_def circling_def)
  from laps_circling [where grp = grp and reaches = reaches and config = config and matches = matches and j = k,
      OF this(2) assms(1,2,4) handle select] obtain s' where
    laps: "network_run network_orderly is_match valid_ke reaches matches config grp s (concat (replicate k lap)) = Some s'"
    and s': "circling c d ?ke k s'" by auto
  have "network_run network_orderly is_match valid_ke reaches matches config grp network_init
      (?start @ concat (replicate k lap)) = Some s'"
    unfolding network_run_append s using laps by simp
  moreover have "apps (grp 0) (concat (replicate k lap)) = []" "zenoh_apps (concat (replicate k lap)) = []"
    by (induction k) (simp_all add: lap_def)
  ultimately show ?thesis using s'
    by (intro exI [where x = "?start @ concat (replicate k lap)"] exI [where x = s'])
      (simp add: circling_def del: network_run_simps)
qed

text \<open>A matching of keys for the examples: the subscription to everything below \<open>lcm\<close>.\<close>

definition below_lcm :: "KeyExpr \<Rightarrow> KeyExpr \<Rightarrow> bool" where
  "below_lcm expr ke \<longleftrightarrow> expr = ''lcm/**'' \<and> take 4 ke = ''lcm/''"

lemma below_lcm_default: "below_lcm (sub_expr (Config_default :: unit Config)) ke \<longleftrightarrow> take 4 ke = ''lcm/''"
  by (simp add: below_lcm_def sub_expr_def Config_default_def DEFAULT_KEY_PREFIX_def)

theorem shared_group_circulates_witness:
  "\<exists>as s. network_run network_orderly (\<lambda>_ _. True) (\<lambda>_. True) (\<lambda>i j. i \<noteq> j) below_lcm (\<lambda>_. Config_default :: unit Config)
      (\<lambda>_. 0 :: nat) network_init as = Some s \<and>
    apps 0 as = [\<lparr>msg_channel = ''CH'', msg_sequence_number = 9, msg_data = [1]\<rparr>] \<and> zenoh_apps as = [] \<and>
    b_published (site s 0) = replicate 3 (False, ''lcm/CH'', [1]) \<and> carried s 1 = replicate 3 (''lcm/CH'', [1])"
proof -
  let ?config = "\<lambda>_ :: nat. Config_default :: unit Config"
  have prefix: "key_prefix (?config 0) @ ''/'' @ ''CH'' = ''lcm/CH''"
    by (simp add: Config_default_def DEFAULT_KEY_PREFIX_def)
  have "below_lcm (sub_expr (?config 1)) (key_prefix (?config 0) @ ''/'' @ ''CH'')"
    unfolding prefix by (simp add: below_lcm_default)
  from shared_group_circulates [where grp = "\<lambda>_. 0 :: nat" and reaches = "\<lambda>i j. i \<noteq> j"
      and valid_ke = "\<lambda>_. True" and is_match = "\<lambda>_ _. True" and config = ?config and k = 3 and n = 9 and d = "[1]"
      and matches = below_lcm and c = "''CH''", OF refl _ refl this]
  show ?thesis
    unfolding prefix by (simp add: is_allowed_def Config_default_def plain_channel_def)
qed

text \<open>One message of an LCM application on the group of the first bridge, carried to the group of the
  second.\<close>

definition island_run :: "nat network_action list" where
  "island_run = [LcmApp 0 \<lparr>msg_channel = ''CH'', msg_sequence_number = 9, msg_data = [1]\<rparr>, At 0 (Deliver 0), SampleAt 1]"

lemma island_run_ends:
  "\<exists>s. network_run network_orderly (\<lambda>_ _. True) (\<lambda>_. True) (\<lambda>i j. i \<noteq> j) below_lcm (\<lambda>_. Config_default :: unit Config)
      (\<lambda>i. i) network_init island_run = Some s \<and> carried s 1 = [(''lcm/CH'', [1])]"
proof -
  have "l2z_handle (\<lambda>_ _. True) (\<lambda>_. True) (Config_default :: unit Config) {}
      \<lparr>msg_channel = ''CH'', msg_sequence_number = 9, msg_data = [1]\<rparr> =
      ({}, Published ''lcm/CH'' [1] :: unit l2z_outcome)"
    by (simp add: l2z_handle_published_iff Config_default_def DEFAULT_KEY_PREFIX_def is_allowed_def plain_channel_def)
  then show ?thesis
    using example_select
    by (simp add: island_run_def network_orderly_def orderly_def network_init_def bridge_init_def multicast_def
        takes_sample_def without_def received_by_def publication_def below_lcm_default own_seqs_def)
qed

theorem islands_do_not_echo_witness:
  "\<exists>s. network_run network_orderly (\<lambda>_ _. True) (\<lambda>_. True) (\<lambda>i j. i \<noteq> j) below_lcm (\<lambda>_. Config_default :: unit Config)
      (\<lambda>i. i) network_init island_run = Some s \<and>
    carried s 1 = [(''lcm/CH'', [1])] \<and> carried s 0 = [] \<and> b_published (site s 1) = []"
proof -
  obtain s where s: "network_run network_orderly (\<lambda>_ _. True) (\<lambda>_. True) (\<lambda>i j. i \<noteq> j) below_lcm
      (\<lambda>_. Config_default :: unit Config) (\<lambda>i. i) network_init island_run = Some s"
    "carried s 1 = [(''lcm/CH'', [1])]" using island_run_ends by blast
  have "inj (\<lambda>i :: nat. i)" by simp
  note islands = islands_do_not_echo [OF s(1) this]
  have apps: "apps j island_run = (if j = 0 then [\<lparr>msg_channel = ''CH'', msg_sequence_number = 9, msg_data = [1]\<rparr>]
      else [])" "zenoh_apps island_run = []" for j
    by (simp_all add: island_run_def)
  have "set (carried s 0) \<subseteq> {}" using islands [of 0] by (simp add: apps)
  moreover have "b_published (site s 1) = []" using islands [of 1] by (simp add: apps)
  ultimately show ?thesis using s by auto
qed

end
