(* ===== verification/Well_Typed.thy ===== *)
theory Well_Typed
  imports Lcm_To_Zenoh
begin

text \<open>
  What the types of the Rust program promise and the model has to show: every channel name that
  comes out of the transport is a valid string without NUL, so every key the LCM to Zenoh task
  publishes under is one too. The reassembler keeps channel names between datagrams, so the claim
  is an invariant of its state.
\<close>

section \<open>Channel names in the reassembler\<close>

definition channels_ok :: "FragmentReassembler \<Rightarrow> bool" where
  "channels_ok r \<longleftrightarrow> (\<forall>key fs. pending r key = Some fs \<longrightarrow> wf_channel (fs_channel fs))"

lemma channels_okD: "channels_ok r \<Longrightarrow> pending r key = Some fs \<Longrightarrow> wf_channel (fs_channel fs)"
  unfolding channels_ok_def by blast

lemma wf_channel_Nil [simp]: "wf_channel []"
  by (simp add: wf_channel_def)

lemma channels_ok_new: "channels_ok (FragmentReassembler_new t m)"
  by (simp add: channels_ok_def FragmentReassembler_new_def)

lemma channels_ok_expire_stale: "channels_ok r \<Longrightarrow> channels_ok (expire_stale r now)"
  by (auto simp: channels_ok_def pending_expire_stale)

lemma channels_ok_put_set:
  assumes "channels_ok r" and "\<And>fs. s = Some fs \<Longrightarrow> wf_channel (fs_channel fs)"
  shows "channels_ok (put_set r key s)"
  using assms by (auto simp: channels_ok_def put_set_def split: if_splits)

lemma touched_channel:
  assumes "channels_ok r" and "wf_packet (Frag f)"
  shows "wf_channel (fs_channel (touched r f sender now))"
  using assms
  by (auto simp: touched_def store_channel_def new_set_def dest: channels_okD split: option.splits)

lemma merged_channel [simp]: "fs_channel (merged f fs) = fs_channel fs"
  by (simp add: merged_def)

lemma process_channels:
  assumes "reassembler_ok r" and "channels_ok r" and "wf_packet (Frag f)"
    and "process r f sender now now' = Ret (r', out)"
  shows "channels_ok r' \<and> (\<forall>msg. out = Some msg \<longrightarrow> wf_channel (msg_channel msg))"
proof -
  let ?r1 = "expire_stale r now" and ?fs = "touched (expire_stale r now) f sender now'"
  have r1: "channels_ok ?r1" using assms(2) by (rule channels_ok_expire_stale)
  then have fs: "wf_channel (fs_channel ?fs)" using assms(3) by (rule touched_channel)
  show ?thesis
    using assms(4) r1 fs
    by (auto simp: process_eq [OF assms(1)] message_of_def intro!: channels_ok_put_set split: if_splits)
qed

section \<open>What recv returns\<close>

definition typed_state :: "Duration \<Rightarrow> usize \<Rightarrow> FragmentReassembler \<Rightarrow> bool" where
  "typed_state t m r \<longleftrightarrow> reassembler_inv t m r \<and> channels_ok r"

definition typed_result :: "'e recv_result option \<Rightarrow> bool" where
  "typed_result out = (case out of Some (Received msg) \<Rightarrow> wf_channel (msg_channel msg) | _ \<Rightarrow> True)"

interpretation typed_receiver: polling_step recv_iter "typed_state t m" typed_result for t m
proof
  fix r :: FragmentReassembler and event :: "'e incoming"
  assume inv: "typed_state t m r"
  obtain r' out where step: "recv_iter r event = Ret (r', out)" and inv': "reassembler_inv t m r'"
    using receiver.step_ok [of t m r event] inv by (auto simp: typed_state_def)
  have "channels_ok r' \<and> typed_result out"
  proof (cases event)
    case (RecvError e)
    with step inv show ?thesis by (auto simp: recv_iter_def typed_state_def typed_result_def)
  next
    case (Datagram pkt src now now')
    obtain packet where p: "parse_datagram (take MAX_DATAGRAM_SIZE pkt) = Ret packet"
      using parse_datagram_total by blast
    consider "packet = None" | m where "packet = Some (Short m)" | f where "packet = Some (Frag f)"
      by (metis Packet.exhaust option.exhaust)
    then show ?thesis
    proof cases
      case 1
      with step inv p Datagram show ?thesis by (auto simp: recv_iter_def typed_state_def typed_result_def)
    next
      case (2 m)
      with p have "wf_packet (Short m)" by (simp add: parse_datagram_iff)
      with 2 step inv p Datagram show ?thesis
        by (auto simp: recv_iter_def typed_state_def typed_result_def)
    next
      case (3 f)
      with p have wf: "wf_packet (Frag f)" by (simp only: parse_datagram_iff)
      have ok: "reassembler_ok r" "channels_ok r"
        using inv by (simp_all add: typed_state_def reassembler_inv_def)
      obtain r1 msg where proc: "process r f src now now' = Ret (r1, msg)"
        using process_ok [OF ok(1)] by blast
      with 3 step p Datagram have "r' = r1" "out = map_option Received msg"
        by (simp_all add: recv_iter_def)
      with process_channels [OF ok wf proc] show ?thesis
        by (cases msg) (simp_all add: typed_result_def)
    qed
  qed
  with step inv' show "\<exists>r' out. recv_iter r event = Ret (r', out) \<and> typed_state t m r' \<and> typed_result out"
    by (auto simp: typed_state_def)
qed

lemma recv_typed:
  assumes "typed_state t m r" and "recv r events = Ret (r', rest, out)"
  shows "typed_state t m r' \<and> typed_result (Some out)"
  using typed_receiver.poll_ok [OF assms(1), of events] assms(2)
  by (auto simp: recv_run_until typed_result_def split: option.splits)

section \<open>What the task publishes\<close>

definition typed_outcome ::
  "('re \<Rightarrow> string \<Rightarrow> bool) \<Rightarrow> (string \<Rightarrow> bool) \<Rightarrow> 're Config \<Rightarrow> 'e l2z_outcome \<Rightarrow> bool" where
  "typed_outcome is_match valid_ke config out =
     (case out of
        Published ke data \<Rightarrow> valid_ke ke \<and> (\<exists>channel. ke = key_prefix config @ ''/'' @ channel \<and>
          wf_channel channel \<and> plain_channel channel \<and> is_allowed is_match channel config)
      | _ \<Rightarrow> True)"

lemma l2z_round_typed:
  assumes "typed_state t m r"
    and "l2z_round is_match valid_ke config (r, seqs) events = Ret ((r', seqs'), rest, Some out)"
  shows "typed_state t m r' \<and> typed_outcome is_match valid_ke config out"
proof -
  from assms(2) obtain r1 rest1 res where recv: "recv r events = Ret (r1, rest1, res)"
    by (cases "recv r events") (auto simp: l2z_round_def)
  note typed = recv_typed [OF assms(1) recv]
  show ?thesis
  proof (cases res)
    case (Received msg)
    with recv assms(2) have "r' = r1" "l2z_handle is_match valid_ke config seqs msg = (seqs', out)"
      by (auto simp: l2z_round_def split: prod.splits)
    with typed Received show ?thesis
      by (cases out) (auto simp: typed_outcome_def typed_result_def l2z_handle_published_iff)
  qed (use recv assms(2) typed in \<open>auto simp: l2z_round_def typed_outcome_def\<close>)
qed

lemma run_typed:
  assumes "typed_state t m r"
    and "lcm_to_zenoh_run fuel is_match valid_ke config (r, seqs) events = Ret (st, outs)"
  shows "\<forall>out \<in> set outs. typed_outcome is_match valid_ke config out"
  using assms
proof (induction fuel arbitrary: r seqs events outs)
  case (Suc fuel)
  from Suc.prems(2) obtain r1 seqs1 rest out where
    round: "l2z_round is_match valid_ke config (r, seqs) events = Ret ((r1, seqs1), rest, out)"
    by (auto simp: bind_eq_Some_conv)
  show ?case
  proof (cases out)
    case None
    with round Suc.prems(2) show ?thesis by simp
  next
    case (Some o1)
    with round Suc.prems(2) obtain outs1 where outs: "outs = o1 # outs1"
      "lcm_to_zenoh_run fuel is_match valid_ke config (r1, seqs1) rest = Ret (st, outs1)"
      by (auto simp: bind_eq_Some_conv)
    with Suc.IH [OF _ outs(2)] l2z_round_typed [OF Suc.prems(1) round [unfolded Some]]
    show ?thesis by simp
  qed
qed simp

lemma valid_str_key: "valid_str prefix \<Longrightarrow> wf_channel channel \<Longrightarrow> valid_str (prefix @ ''/'' @ channel)"
proof -
  have "valid_str ''/''" by (simp add: channel_eval)
  then show "valid_str prefix \<Longrightarrow> wf_channel channel \<Longrightarrow> valid_str (prefix @ ''/'' @ channel)"
    by (simp add: valid_str_append [of prefix] valid_str_append [of "''/''", simplified] wf_channel_def)
qed

lemma typed_l2z_reassembler:
  "typed_state (from_secs 1) (cfg_max_message_size config) (l2z_reassembler config)"
  by (simp add: typed_state_def l2z_reassembler_def reassembler_ok_new channels_ok_new)

section \<open>Properties\<close>

text \<open>Claim C16. Every key the LCM to Zenoh task publishes under, whatever datagrams arrive, is a valid
  string that Zenoh accepts: the configured prefix, a slash, and a channel that is valid UTF-8,
  not empty, free of NUL and of the reserved characters, and allowed.\<close>

theorem published_keys_well_typed:
  fixes outs :: "'e l2z_outcome list"
  assumes "lcm_to_zenoh_run fuel is_match valid_ke config (l2z_reassembler config, seqs) events = Ret (st, outs)"
    and "valid_str (key_prefix config)" and "Published ke data \<in> set outs"
  shows "valid_str ke \<and> valid_ke ke \<and> (\<exists>channel. ke = key_prefix config @ ''/'' @ channel \<and>
    wf_channel channel \<and> plain_channel channel \<and> is_allowed is_match channel config)"
proof -
  have "typed_outcome is_match valid_ke config (Published ke data :: 'e l2z_outcome)"
    using run_typed [OF typed_l2z_reassembler assms(1)] assms(3) by blast
  with valid_str_key [OF assms(2)] show ?thesis by (auto simp: typed_outcome_def)
qed

theorem published_keys_well_typed_witness:
  "valid_str ''lcm/CH'' \<and> (\<exists>channel. ''lcm/CH'' = ''lcm'' @ ''/'' @ channel \<and> wf_channel channel \<and> plain_channel channel)"
proof -
  have "valid_str (key_prefix (Config_default :: unit Config))"
    by (simp add: Config_default_def DEFAULT_KEY_PREFIX_def channel_eval)
  from published_keys_well_typed [OF example_run this, of "''lcm/CH''" "[1]"]
  show ?thesis by (auto simp: Config_default_def DEFAULT_KEY_PREFIX_def)
qed

end
