(* ===== verification/Reassembly_Memory.thy ===== *)
theory Reassembly_Memory
  imports Delivery
begin

text \<open>
  How much the reassembler buffers. Its limit is on each message (\<open>fragment.rs\<close> line 58), and a first
  fragment reserves the whole announced size (lines 76 to 78); what bounds the sum is the traffic
  within one timeout, and a datagram of 20 bytes can reserve the maximum.
\<close>

section \<open>The buffers of the pending sets\<close>

text \<open>The size of a set is what it buffers.\<close>

instantiation FragmentSet_ext :: (type) size
begin

definition size_FragmentSet_ext :: "'a FragmentSet_scheme \<Rightarrow> nat" where
  "size_FragmentSet_ext s = length (fs_buffer s)"

instance ..

end

lemmas size_set [simp] = size_FragmentSet_ext_def

definition buffered :: "FragmentReassembler \<Rightarrow> nat" where
  "buffered r = (\<Sum>key \<in> dom (pending r). size (the (pending r key)))"

lemma buffered_le:
  assumes "reassembler_ok r"
  shows "buffered r \<le> card (dom (pending r)) * max_message_size r"
proof -
  have "size (the (pending r key)) \<le> max_message_size r" if "key \<in> dom (pending r)" for key
  proof -
    from that obtain fs where fs: "pending r key = Some fs" by blast
    with reassembler_okD(2,3) [OF assms fs] show ?thesis by (simp add: set_ok_def)
  qed
  then show ?thesis unfolding buffered_def using sum_bounded_above by (metis of_nat_id)
qed

definition arrival_key :: "arrival \<Rightarrow> FragmentKey" where
  "arrival_key = (\<lambda>(f, sender, _, _). key_of f sender)"

text \<open>Every pending set was created by an arrival for its key.\<close>

definition originates :: "arrival set \<Rightarrow> FragmentReassembler \<Rightarrow> bool" where
  "originates A r \<longleftrightarrow> (\<forall>key s. pending r key = Some s \<longrightarrow>
     (\<exists>f sender now now'. (f, sender, now, now') \<in> A \<and> key_of f sender = key \<and> created_at s = now'))"

lemma process_pending:
  assumes "reassembler_ok r" and "process r f sender now now' = Ret (r', out)"
    and "pending r' key = Some s"
  shows "(\<exists>s0. pending r key = Some s0 \<and> created_at s0 = created_at s \<and>
      duration_since now (created_at s) \<le> timeout r) \<or> key = key_of f sender \<and> created_at s = now'"
proof (cases "key = key_of f sender")
  case False
  with assms(2,3) have "pending (expire_stale r now) key = Some s"
    by (auto simp: process_eq [OF assms(1)] split: if_splits)
  then show ?thesis by (auto simp: pending_expire_stale)
next
  case True
  have "created_at s = created_at (touched (expire_stale r now) f sender now') \<or>
      pending (expire_stale r now) key = Some s"
    using assms(2,3) True by (auto simp: process_eq [OF assms(1)] merged_def split: if_splits)
  then show ?thesis
    using True by (auto simp: touched_def set_update new_set_def pending_expire_stale split: option.splits)
qed

lemma originates_step:
  assumes "reassembler_ok r" and "originates A r" and "process_arrival r a = Ret (r', out)"
  shows "originates (insert a A) r'"
  unfolding originates_def
proof (intro allI impI)
  fix key s
  assume s: "pending r' key = Some s"
  obtain f sender now now' where a: "a = (f, sender, now, now')" by (cases a)
  with assms(3) have "process r f sender now now' = Ret (r', out)" by (simp add: process_arrival_def)
  from process_pending [OF assms(1) this s] consider
      s0 where "pending r key = Some s0" "created_at s0 = created_at s"
    | "key = key_of f sender" "created_at s = now'" by blast
  then show "\<exists>f sender now now'. (f, sender, now, now') \<in> insert a A \<and> key_of f sender = key \<and> created_at s = now'"
  proof cases
    case 1
    with assms(2) show ?thesis unfolding originates_def by (metis insertCI)
  next
    case 2
    with a show ?thesis by blast
  qed
qed

lemma originates_run:
  assumes "reassembler_ok r" and "originates A r" and "run_steps process_arrival r arrivals = Ret (r', outs)"
  shows "originates (A \<union> set arrivals) r' \<and> reassembler_ok r' \<and> timeout r' = timeout r \<and>
    max_message_size r' = max_message_size r"
  using assms
proof (induction arrivals arbitrary: r A outs)
  case (Cons a arrivals)
  then obtain r1 out outs1 where 1: "process_arrival r a = Ret (r1, out)"
    "run_steps process_arrival r1 arrivals = Ret (r', outs1)"
    by (auto simp: bind_eq_Some_conv split: prod.splits)
  obtain f sender now now' where a: "a = (f, sender, now, now')" by (cases a)
  have r1: "reassembler_ok r1 \<and> timeout r1 = timeout r \<and> max_message_size r1 = max_message_size r"
    using process_ok [OF Cons.prems(1), of f sender now now'] 1(1) by (auto simp: a process_arrival_def)
  from Cons.IH [OF _ originates_step [OF Cons.prems(1,2) 1(1)] 1(2)] r1 show ?case by simp
qed simp

definition recent :: "Duration \<Rightarrow> Instant \<Rightarrow> arrival list \<Rightarrow> arrival list" where
  "recent window now arrivals = filter (\<lambda>(_, _, _, now'). duration_since now now' \<le> window) arrivals"

section \<open>Fragments that reserve the maximum\<close>

text \<open>The second of two fragments of a message of \<open>m\<close> bytes, itself without data.\<close>

definition reserving :: "nat \<Rightarrow> u32 \<Rightarrow> Fragment" where
  "reserving m q = \<lparr>frag_sequence_number = q, frag_payload_size = word_of_nat m, frag_fragment_offset = 0,
     frag_fragment_number = 1, frag_n_fragments = 2, frag_channel = None, frag_data = []\<rparr>"

definition reserving_datagram :: "nat \<Rightarrow> u32 \<Rightarrow> bytes" where
  "reserving_datagram m q = encode_packet (Frag (reserving m q))"

lemma length_reserving_datagram [simp]: "length (reserving_datagram m q) = 20"
  by (simp add: reserving_datagram_def reserving_def length_encode_fragment FRAGMENT_HEADER_SIZE_def channel_field_def)

lemma reserving_datagram_parses:
  "parse_datagram (take MAX_DATAGRAM_SIZE (reserving_datagram m q)) = Ret (Some (Frag (reserving m q)))"
proof -
  have "wf_packet (Frag (reserving m q))" by (simp add: reserving_def)
  then have "parse_datagram (reserving_datagram m q) = Ret (Some (Frag (reserving m q)))"
    by (simp only: parse_datagram_iff reserving_datagram_def simp_thms)
  then show ?thesis by (simp add: MAX_DATAGRAM_SIZE_def)
qed

text \<open>After \<open>k\<close> of them, all with the clock at \<open>now\<close>.\<close>

definition reserved :: "nat \<Rightarrow> SocketAddr \<Rightarrow> Instant \<Rightarrow> nat \<Rightarrow> FragmentReassembler \<Rightarrow> bool" where
  "reserved m src now k r \<longleftrightarrow> dom (pending r) = (\<lambda>i. (src, word_of_nat i)) ` {..<k} \<and>
     (\<forall>key s. pending r key = Some s \<longrightarrow> created_at s = now \<and> length (fs_buffer s) = m)"

lemma reserved_step:
  assumes ok: "reassembler_ok r" and r: "reserved m src now k r" "max_message_size r = m"
    and k: "k < 2 ^ 32" and m: "m < 2 ^ 32"
  shows "\<exists>r'. recv_iter r (Datagram (reserving_datagram m (word_of_nat k)) src now now) = Ret (r', None) \<and>
    reassembler_ok r' \<and> reserved m src now (Suc k) r' \<and> max_message_size r' = m"
proof -
  let ?f = "reserving m (word_of_nat k)" and ?key = "(src, word_of_nat k :: u32)"
  have expire: "expire_stale r now = r"
  proof -
    have "pending (expire_stale r now) = pending r"
      using r(1) by (auto simp: expire_stale_def reserved_def duration_since_def fun_eq_iff split: option.splits)
    then show ?thesis by (simp add: expire_stale_def)
  qed
  have inj: "(word_of_nat k :: u32) = word_of_nat i \<longleftrightarrow> k = i" if "i < 2 ^ 32" for i
    using that k by (simp add: word_unat_eq_iff unat_of_nat)
  have new: "pending r ?key = None"
  proof (rule ccontr)
    assume "pending r ?key \<noteq> None"
    then have "?key \<in> dom (pending r)" by blast
    with r(1) obtain i where "i < k" "(word_of_nat k :: u32) = word_of_nat i" by (auto simp: reserved_def)
    with inj [of i] k show False by simp
  qed
  have key: "key_of ?f src = ?key" by (simp add: key_of_def reserving_def)
  have size: "unat (frag_payload_size ?f) = m" using m by (simp add: reserving_def unat_of_nat)
  let ?s = "merged ?f (new_set ?f now)"
  have touched: "touched r ?f src now = new_set ?f now"
  proof -
    have "frag_channel ?f = None" by (simp add: reserving_def)
    then show ?thesis using new by (simp add: touched_def key store_channel_def)
  qed
  have accepts: "accepts ?f (new_set ?f now)" "fragments_received (new_set ?f now) + 1 \<noteq> fs_n_fragments (new_set ?f now)"
    by (simp_all add: accepts_def new_set_def reserving_def)
  have proc: "process r ?f src now now = Ret (put_set r ?key (Some ?s), None)"
    using accepts by (simp add: process_eq [OF ok] expire touched key size r(2))
  have s: "created_at ?s = now" "length (fs_buffer ?s) = m"
    using m by (simp_all add: merged_def new_set_def reserving_def unat_of_nat)
  have "reserved m src now (Suc k) (put_set r ?key (Some ?s))"
    using r(1) s by (auto simp: reserved_def lessThan_Suc)
  moreover have "reassembler_ok (put_set r ?key (Some ?s))"
    using process_ok [OF ok, of ?f src now now] proc by auto
  ultimately show ?thesis
    using proc r(2) by (simp add: recv_iter_def reserving_datagram_parses)
qed

definition reserving_events :: "nat \<Rightarrow> SocketAddr \<Rightarrow> Instant \<Rightarrow> nat \<Rightarrow> unit incoming list" where
  "reserving_events m src now k =
     map (\<lambda>i. Datagram (reserving_datagram m (word_of_nat i)) src now now) [0..<k]"

lemma reserved_run:
  assumes "k \<le> 2 ^ 32" and "m < 2 ^ 32"
  shows "\<exists>r. run_steps recv_iter (FragmentReassembler_new t m) (reserving_events m src now k) = Ret (r, replicate k None) \<and>
    reassembler_ok r \<and> reserved m src now k r \<and> max_message_size r = m"
  using assms(1)
proof (induction k)
  case 0
  then show ?case using reassembler_ok_new [of t m]
    by (simp add: reassembler_inv_def reserved_def FragmentReassembler_new_def reserving_events_def)
next
  case (Suc k)
  then obtain r where run: "run_steps recv_iter (FragmentReassembler_new t m) (reserving_events m src now k) = Ret (r, replicate k None)"
    and r: "reassembler_ok r" "reserved m src now k r" "max_message_size r = m" by auto
  from Suc.prems have "k < 2 ^ 32" by simp
  from reserved_step [OF r this assms(2)] obtain r' where
    "recv_iter r (Datagram (reserving_datagram m (word_of_nat k)) src now now :: unit incoming) = Ret (r', None)"
    "reassembler_ok r'" "reserved m src now (Suc k) r'" "max_message_size r' = m" by blast
  with run show ?case
    by (intro exI [where x = r']) (simp add: run_steps_append reserving_events_def replicate_append_same)
qed

lemma reserved_buffered:
  assumes "reserved m src now k r" and "k \<le> 2 ^ 32"
  shows "buffered r = k * m"
proof -
  have "size (the (pending r key)) = m" if "key \<in> dom (pending r)" for key
    using assms(1) that unfolding reserved_def size_set by (metis domD option.sel)
  then have "buffered r = card (dom (pending r)) * m" by (simp add: buffered_def)
  moreover have "inj_on (\<lambda>i. (src, word_of_nat i :: u32)) {..<k}"
    using assms(2) by (auto simp: inj_on_def word_unat_eq_iff unat_of_nat)
  then have "card (dom (pending r)) = k" using assms(1) by (simp add: reserved_def card_image)
  ultimately show ?thesis by simp
qed

section \<open>Properties\<close>

text \<open>Claim C20. The memory of the reassembler is bounded by the traffic within one timeout: after any
  arrivals, there are at most as many pending sets as fragments have arrived in the last timeout, and
  their buffers hold at most the maximum message size each.\<close>

theorem pending_memory_bounded:
  assumes "run_steps process_arrival (FragmentReassembler_new t m) (arrivals @ [(f, sender, now, now')]) =
    Ret (r, outs)"
  shows "card (dom (pending r)) \<le> Suc (length (recent t now arrivals)) \<and>
    buffered r \<le> Suc (length (recent t now arrivals)) * m"
proof -
  let ?new = "FragmentReassembler_new t m"
  have new: "reassembler_ok ?new" "originates {} ?new" "timeout ?new = t" "max_message_size ?new = m"
    using reassembler_ok_new [of t m]
    by (simp_all add: reassembler_inv_def originates_def FragmentReassembler_new_def)
  obtain r1 outs1 out where 1: "run_steps process_arrival ?new arrivals = Ret (r1, outs1)"
    "process r1 f sender now now' = Ret (r, out)"
    using assms by (auto simp: run_steps_append bind_eq_Some_conv process_arrival_def split: prod.splits)
  note r1 = originates_run [OF new(1,2) 1(1), unfolded new(3,4)]
  have r: "reassembler_ok r" "max_message_size r = m"
    using process_ok [of r1 f sender now now'] r1 1(2) by auto
  have "dom (pending r) \<subseteq> arrival_key ` set ((f, sender, now, now') # recent t now arrivals)"
  proof
    fix key
    assume "key \<in> dom (pending r)"
    then obtain s where s: "pending r key = Some s" by blast
    have ok: "reassembler_ok r1" using r1 by blast
    from process_pending [OF ok 1(2) s] consider
        s0 where "pending r1 key = Some s0" "created_at s0 = created_at s" "duration_since now (created_at s) \<le> t"
      | "key = key_of f sender" using r1 by auto
    then show "key \<in> arrival_key ` set ((f, sender, now, now') # recent t now arrivals)"
    proof cases
      case 1
      with r1 obtain g sd n n' where "(g, sd, n, n') \<in> set arrivals" "key_of g sd = key" "created_at s = n'"
        unfolding originates_def by fastforce
      with 1(3) have "(g, sd, n, n') \<in> set (recent t now arrivals)" by (simp add: recent_def)
      with \<open>key_of g sd = key\<close> show ?thesis by (force simp: arrival_key_def)
    qed (simp add: arrival_key_def)
  qed
  then have "card (dom (pending r)) \<le> card (set ((f, sender, now, now') # recent t now arrivals))"
    by (meson List.finite_set card_image_le card_mono finite_imageI le_trans)
  then have card: "card (dom (pending r)) \<le> Suc (length (recent t now arrivals))"
    using card_length [of "(f, sender, now, now') # recent t now arrivals"] by simp
  moreover have "buffered r \<le> Suc (length (recent t now arrivals)) * m"
    using buffered_le [OF r(1)] mult_le_mono1 [OF card, of m] by (simp only: r(2))
  ultimately show ?thesis ..
qed

theorem pending_memory_bounded_witness:
  "\<exists>r outs. run_steps process_arrival (FragmentReassembler_new 10 100)
      ([(example_fragment, example_sender, 5, 5)] @ [(reserving 100 8, example_sender, 50, 50)]) = Ret (r, outs) \<and>
    card (dom (pending r)) \<le> 1 \<and> buffered r \<le> 100"
proof -
  let ?arrivals = "[(example_fragment, example_sender, 5, 5)] @ [(reserving 100 8, example_sender, 50, 50)]"
  obtain r outs where run: "run_steps process_arrival (FragmentReassembler_new 10 100) ?arrivals = Ret (r, outs)"
    using reasm.run_ok [OF reassembler_ok_new [of 10 100], of ?arrivals] by blast
  have "recent 10 50 [(example_fragment, example_sender, 5, 5)] = []"
    by (simp add: recent_def duration_since_def)
  with pending_memory_bounded [OF run] run show ?thesis by auto
qed

text \<open>Claim C21. Nothing bounds the number of pending sets: \<open>k\<close> datagrams of 20 bytes each, from one
  sender, make the receive loop hold \<open>k\<close> times the maximum message size, for any \<open>k\<close> up to the number
  of sequence numbers, and no message is delivered.\<close>

theorem pending_memory_amplified:
  assumes "k \<le> 2 ^ 32" and "m < 2 ^ 32"
  shows "\<exists>pkts r. length pkts = k \<and> (\<forall>pkt \<in> set pkts. length pkt = 20) \<and>
    run_steps recv_iter (FragmentReassembler_new t m)
      (map (\<lambda>pkt. Datagram pkt src now now :: unit incoming) pkts) = Ret (r, replicate k None) \<and> buffered r = k * m"
proof -
  obtain r where "run_steps recv_iter (FragmentReassembler_new t m) (reserving_events m src now k) = Ret (r, replicate k None)"
    "reserved m src now k r"
    using reserved_run [OF assms] by blast
  with reserved_buffered [OF _ assms(1)] show ?thesis
    by (intro exI [where x = "map (\<lambda>i. reserving_datagram m (word_of_nat i)) [0..<k]"] exI [where x = r])
      (auto simp: comp_def reserving_events_def)
qed

theorem pending_memory_amplified_witness:
  "\<exists>pkts r. sum_list (map length pkts) = 20000 \<and>
    run_steps recv_iter (FragmentReassembler_new 10 DEFAULT_MAX_MESSAGE_SIZE)
      (map (\<lambda>pkt. Datagram pkt example_sender 5 5) pkts) = Ret (r, replicate 1000 (None :: unit recv_result option)) \<and>
    buffered r = 4194304000"
proof -
  have "(1000 :: nat) \<le> 2 ^ 32" "DEFAULT_MAX_MESSAGE_SIZE < 2 ^ 32"
    by (simp_all add: DEFAULT_MAX_MESSAGE_SIZE_def)
  from pending_memory_amplified [OF this, of 10 example_sender 5] obtain pkts r where
    pkts: "length pkts = 1000" "\<forall>pkt \<in> set pkts. length pkt = 20"
    and run: "run_steps recv_iter (FragmentReassembler_new 10 DEFAULT_MAX_MESSAGE_SIZE)
      (map (\<lambda>pkt. Datagram pkt example_sender 5 5) pkts) = Ret (r, replicate 1000 (None :: unit recv_result option))"
      "buffered r = 1000 * DEFAULT_MAX_MESSAGE_SIZE" by blast
  have "map length pkts = replicate 1000 20"
    using pkts by (intro replicate_eqI) auto
  then have "sum_list (map length pkts) = 20000" by (simp add: sum_list_replicate)
  with run show ?thesis by (intro exI [where x = pkts] exI [where x = r]) (simp add: DEFAULT_MAX_MESSAGE_SIZE_def)
qed

end
