(* ===== verification/Local_Senders.thy ===== *)
theory Local_Senders
  imports In_Order
begin

text \<open>
  Transports on one host. \<open>LcmTransport::new\<close> binds every socket to the group's port on the unspecified
  address (\<open>multicast.rs\<close> lines 69 to 85) and \<open>send\<close> uses that socket, so all transports of a host send
  from one source address, and the key of the reassembler, sender and sequence number, does not tell
  them apart.
\<close>

section \<open>Fragments of two messages of one shape\<close>

definition spliced :: "usize \<Rightarrow> bytes \<Rightarrow> bytes \<Rightarrow> bytes" where
  "spliced k d1 d2 = take k d1 @ drop k d2"

lemma length_spliced [simp]: "length d1 = length d2 \<Longrightarrow> length (spliced k d1 d2) = length d2"
  by (simp add: spliced_def)

lemma frag_start_mono: "i \<le> j \<Longrightarrow> frag_start fc sc i \<le> frag_start fc sc j"
  by (auto simp: frag_start_def intro: trans_le_add2)

lemma take_spliced: "n \<le> k \<Longrightarrow> length d1 = length d2 \<Longrightarrow> take n (spliced k d1 d2) = take n d1"
  by (auto simp: spliced_def min_def)

lemma drop_spliced: "k \<le> n \<Longrightarrow> length d1 = length d2 \<Longrightarrow> drop n (spliced k d1 d2) = drop n d2"
  by (cases "k \<le> length d2") (simp_all add: spliced_def)

lemma chunk_spliced:
  assumes "length d1 = length d2"
  shows "i < j \<Longrightarrow> chunk_of fc sc (spliced (frag_start fc sc j) d1 d2) i = chunk_of fc sc d1 i"
    and "j \<le> i \<Longrightarrow> chunk_of fc sc (spliced (frag_start fc sc j) d1 d2) i = chunk_of fc sc d2 i"
proof -
  let ?s = "spliced (frag_start fc sc j) d1 d2"
  assume "i < j"
  then have "frag_start fc sc (Suc i) \<le> frag_start fc sc j" by (intro frag_start_mono) simp
  from take_spliced [OF this assms] show "chunk_of fc sc ?s i = chunk_of fc sc d1 i"
    by (simp add: chunk_of_def take_drop frag_start_Suc add.commute split: if_splits)
next
  let ?s = "spliced (frag_start fc sc j) d1 d2"
  assume "j \<le> i"
  from drop_spliced [OF frag_start_mono [OF this] assms] show "chunk_of fc sc ?s i = chunk_of fc sc d2 i"
    by (simp add: chunk_of_def)
qed

text \<open>The first fragments of one message and the last of the other are the fragments of a third.\<close>

lemma sent_fragments_spliced:
  assumes "length c1 = length c2" and "length d1 = length d2" and "0 < j"
  shows "take j (sent_fragments mtu n c1 d1) @ drop j (sent_fragments mtu n c2 d2) =
    sent_fragments mtu n c1 (spliced (frag_start (first_capacity mtu c1) (next_capacity mtu) j) d1 d2)"
proof -
  have cap: "first_capacity mtu c1 = first_capacity mtu c2" using assms(1) by (simp add: first_capacity_def)
  show ?thesis
  proof (rule nth_equalityI)
    fix i
    assume "i < length (take j (sent_fragments mtu n c1 d1) @ drop j (sent_fragments mtu n c2 d2))"
    then have "i < frag_count (first_capacity mtu c2) (next_capacity mtu) (length d2) mod 65536"
      using assms(2) by (simp add: length_sent_fragments cap)
    then show "(take j (sent_fragments mtu n c1 d1) @ drop j (sent_fragments mtu n c2 d2)) ! i =
        sent_fragments mtu n c1 (spliced (frag_start (first_capacity mtu c1) (next_capacity mtu) j) d1 d2) ! i"
      using chunk_spliced [OF assms(2), where i = i and j = j
          and fc = "first_capacity mtu c2" and sc = "next_capacity mtu"] assms(2,3) cap
      by (cases "i < j") (simp_all add: nth_append sent_fragments_def Let_def sent_fragment_def min_def)
  qed (simp add: length_sent_fragments cap assms(2))
qed

text \<open>A fragment after the first starts inside the payload.\<close>

lemma frag_start_inside:
  assumes "fragmentable mtu c d" and "0 < j" and "j < length (sent_fragments mtu n c d)"
  shows "0 < frag_start (first_capacity mtu c) (next_capacity mtu) j"
    and "frag_start (first_capacity mtu c) (next_capacity mtu) j < length d"
proof -
  let ?fc = "first_capacity mtu c" and ?sc = "next_capacity mtu"
  from assms(1,2) show "0 < frag_start ?fc ?sc j" by (simp add: fragmentable_def frag_start_def)
  have sc: "0 < ?sc" using assms(1) by (auto simp: fragmentable_def next_capacity_def first_capacity_def)
  have "j \<le> (length d - ?fc + (?sc - 1)) div ?sc"
    using assms by (auto simp: length_sent_fragments fragmentable_def frag_count_def split: if_splits)
  then have "j * ?sc \<le> length d - ?fc + (?sc - 1)"
    using sc by (simp add: less_eq_div_iff_mult_less_eq)
  moreover have "j * ?sc = (j - 1) * ?sc + ?sc" using assms(2) by (cases j) simp_all
  ultimately show "frag_start ?fc ?sc j < length d" using sc assms(2) by (simp add: frag_start_def)
qed

lemma transport_created:
  assumes "LcmTransport_new sock config = (calls, Inr t)"
  shows "calls = socket_calls config" and "fragment_mtu t = tc_fragment_mtu config" and "sequence_counter t = 0"
proof -
  from assms have run: "run_calls sock [] (socket_calls config) = (calls, None)"
    and t: "fragment_mtu t = tc_fragment_mtu config" "sequence_counter t = 0"
    by (auto simp: LcmTransport_new_def split: prod.splits option.splits)
  from run run_calls_prefix [of sock "[]" "socket_calls config"] show "calls = socket_calls config" by auto
  from t show "fragment_mtu t = tc_fragment_mtu config" "sequence_counter t = 0" by simp_all
qed

section \<open>Properties\<close>

text \<open>Claim C32. Two transports of one host are told apart by nothing: they bind to the same port, their
  first messages have the same number, and when two messages of one shape are in flight at once, the
  first fragments of one and the last of the other are received as one message that nobody sent.\<close>

theorem local_senders_mix:
  assumes a: "LcmTransport_new sock config = (calls, Inr a)"
    and b: "LcmTransport_new sock' config = (calls', Inr b)"
    and sent: "send os a neta c1 d1 = Ret (a', neta', Inr n)" "send os' b netb c2 d2 = Ret (b', netb', Inr m)"
    and shape: "length c1 = length c2" "length d1 = length d2" "\<not> is_short (tc_fragment_mtu config) c1 d1"
    and msg: "intact (tc_fragment_mtu config) (c1, d1)"
    and r: "reassembler_inv window limit r" "length d1 \<le> limit" "\<forall>q. pending r (src, q) = None"
    and pkts: "as = map snd (drop (length (wire neta)) (wire neta'))"
      "bs = map snd (drop (length (wire netb)) (wire netb'))" "0 < j" "j < length as"
  shows "Bind UNSPECIFIED (port (tc_lcm_url config)) \<in> set calls \<inter> set calls' \<and> n = m \<and>
    (\<exists>k r'. 0 < k \<and> k < length d1 \<and> recv r (hand_over src now (take j as @ drop j bs) :: 'a incoming list) = Ret (r', [],
      Received \<lparr>msg_channel = c1, msg_sequence_number = n, msg_data = take k d1 @ drop k d2\<rparr>))"
proof -
  let ?mtu = "tc_fragment_mtu config"
  let ?k = "frag_start (first_capacity ?mtu c1) (next_capacity ?mtu) j"
  note new = transport_created [OF a] transport_created [OF b]
  have num: "n = 0" "m = 0" using send_wire(1) [OF sent(1)] send_wire(1) [OF sent(2)] new by simp_all
  have short: "\<not> is_short ?mtu c2 d2" using shape by (simp add: is_short_def)
  have frags: "as = sent_datagrams ?mtu 0 c1 d1" "bs = sent_datagrams ?mtu 0 c2 d2"
    using send_wire(3) [OF sent(1)] send_wire(3) [OF sent(2)] pkts(1,2) shape(3) short new num
    by (simp_all add: datagrams_def comp_def)
  then have "take j as @ drop j bs = sent_datagrams ?mtu 0 c1 (spliced ?k d1 d2)"
    using sent_fragments_spliced [OF shape(1,2) pkts(3), of ?mtu 0]
    by (simp add: sent_datagrams_def take_map drop_map flip: map_append)
  moreover have shape': "\<not> is_short ?mtu c1 (spliced ?k d1 d2)" "intact ?mtu (c1, spliced ?k d1 d2)"
    using shape msg by (simp_all add: is_short_def intact_def fragmentable_def)
  ultimately have mixed: "take j as @ drop j bs = datagrams ?mtu 0 c1 (spliced ?k d1 d2)"
    by (simp add: datagrams_def)
  have "length (spliced ?k d1 d2) \<le> limit" using shape(2) r(2) by simp
  from message_received [OF shape'(2) r(1) this r(3) arrive_hand_over [where now = now],
      where rest = "[] :: 'a incoming list" and seq = 0] obtain r' where
    "recv r (hand_over src now (take j as @ drop j bs) :: 'a incoming list) = Ret (r', [], Received
      \<lparr>msg_channel = c1, msg_sequence_number = 0, msg_data = take ?k d1 @ drop ?k d2\<rparr>)"
    unfolding mixed by (auto simp: spliced_def)
  moreover have "Bind UNSPECIFIED (port (tc_lcm_url config)) \<in> set calls \<inter> set calls'"
    by (simp add: new(1,4) socket_calls_def Let_def)
  moreover have "fragmentable ?mtu c1 d1" using msg shape(3) by (auto simp: intact_def)
  from frag_start_inside [OF this pkts(3), of 0] pkts(4) frags have "0 < ?k" "?k < length d1"
    by (simp_all add: sent_datagrams_def)
  ultimately show ?thesis using num by blast
qed

definition example_small_mtu :: LcmTransportConfig where
  "example_small_mtu = LcmTransportConfig_default\<lparr>tc_fragment_mtu := 33\<rparr>"

lemma example_created:
  "\<exists>t. LcmTransport_new (\<lambda>_ _. None :: unit option) example_small_mtu = (socket_calls example_small_mtu, Inr t) \<and>
     fragment_mtu t = 33 \<and> sequence_counter t = 0"
  by (simp add: LcmTransport_new_def run_calls_all example_small_mtu_def)

theorem local_senders_mix_witness:
  "\<exists>pkts k r'. 0 < k \<and> k < 24 \<and> recv example_reassembler (hand_over example_sender 5 pkts :: unit incoming list) =
    Ret (r', [], Received \<lparr>msg_channel = ''C'', msg_sequence_number = 0,
      msg_data = take k example_data @ drop k (replicate 24 0)\<rparr>)"
proof -
  let ?net = "\<lparr>attempts = 0, wire = []\<rparr>" and ?d2 = "replicate 24 (0 :: u8)"
  obtain t where t: "LcmTransport_new (\<lambda>_ _. None :: unit option) example_small_mtu =
      (socket_calls example_small_mtu, Inr t)" "fragment_mtu t = 33" "sequence_counter t = 0"
    using example_created by blast
  have short: "\<not> is_short 33 ''C'' example_data" by (simp add: is_short_def length_example_data)
  have "fragmentable 33 ''D'' ?d2" "wf_channel ''D''"
    by (simp_all add: fragmentable_def capacity_defs channel_eval)
  then have intact: "intact 33 (''C'', example_data)" "intact 33 (''D'', ?d2)"
    using example_fragmentable example_channel by (simp_all add: intact_def MAX_DATAGRAM_SIZE_def)
  obtain netb where sent_b: "send (\<lambda>_ _. None :: unit option) t ?net ''D'' ?d2 =
      Ret (t\<lparr>sequence_counter := 1\<rparr>, netb, Inr 0)"
    using send_intact [of t "''D''" ?d2 ?net, where 'e = unit] intact(2) t by auto
  obtain neta where sent_a: "send (\<lambda>_ _. None :: unit option) t ?net ''C'' example_data =
      Ret (t\<lparr>sequence_counter := 1\<rparr>, neta, Inr 0)"
    and wire: "wire neta = map (Pair (multicast_addr t)) (datagrams 33 0 ''C'' example_data)"
    using send_intact [of t "''C''" example_data ?net, where 'e = unit] intact(1) t by auto
  let ?as = "map snd (drop (length (wire ?net)) (wire neta))"
  have "1 < length ?as"
    using wire short by (simp add: datagrams_def sent_datagrams_def length_sent_fragments capacity_defs length_example_data)
  have r: "reassembler_inv 10 100 example_reassembler"
    using reassembler_ok_new [of 10 100] by (simp add: example_reassembler_def)
  have "\<exists>k r'. 0 < k \<and> k < length example_data \<and>
      recv example_reassembler (hand_over example_sender 5 (take 1 ?as @ drop 1 (map snd (drop (length (wire ?net)) (wire netb))))
        :: unit incoming list) = Ret (r', [], Received \<lparr>msg_channel = ''C'', msg_sequence_number = 0,
        msg_data = take k example_data @ drop k ?d2\<rparr>)"
    using local_senders_mix [OF t(1) t(1) sent_a sent_b _ _ _ _ r, where 'a = unit and src = example_sender
        and now = 5 and j = 1] short intact(1) \<open>1 < length ?as\<close> example_reassembler_ok(2)
    by (simp add: example_small_mtu_def length_example_data)
  then show ?thesis by (auto simp: length_example_data simp del: recv.simps)
qed

end
