(* ===== verification/Config_Json.thy ===== *)
theory Config_Json
  imports Plugin_Config
begin

text \<open>
  Reading and writing the plugin's configuration as JSON, \<open>zenoh-plugin-lcm/src/config.rs\<close>: the
  derived \<open>Deserialize\<close> with its defaults and \<open>deny_unknown_fields\<close>, the custom readers of the
  regexes and of \<open>__path__\<close>, and the derived \<open>Serialize\<close> with \<open>serialize_allow\<close> and
  \<open>serialize_deny\<close>. The regex crate is a parameter: \<open>compile\<close> is \<open>Regex::new(s).ok()\<close>,
  \<open>pattern\<close> is \<open>to_string\<close>. An error of the reader is \<open>None\<close>: its caller formats every error
  into one message.
\<close>

section \<open>JSON values\<close>

text \<open>\<open>serde_json::Value\<close>. The keys of an object are distinct, since the value holds a map; the
  bits of a float are opaque.\<close>

datatype Number = PosInt nat | NegInt int | Float "64 word"

datatype Json =
    JNull
  | JBool bool
  | JNumber Number
  | JString string
  | JArray "Json list"
  | JObject "(string \<times> Json) list"

section \<open>Reading\<close>

text \<open>\<open>Deserialize\<close> of \<open>String\<close>, \<open>Option<String>\<close>, \<open>Option<bool>\<close> and \<open>usize\<close>.\<close>

fun de_string :: "Json \<Rightarrow> string option" where
  "de_string (JString s) = Some s"
| "de_string _ = None"

fun de_usize :: "Json \<Rightarrow> usize option" where
  "de_usize (JNumber (PosInt n)) = (if n < 2 ^ 64 then Some n else None)"
| "de_usize _ = None"

fun de_bool :: "Json \<Rightarrow> bool option" where
  "de_bool (JBool b) = Some b"
| "de_bool _ = None"

definition de_option :: "(Json \<Rightarrow> 'a option) \<Rightarrow> Json \<Rightarrow> 'a option option" where
  "de_option de j = (case j of JNull \<Rightarrow> Some None | _ \<Rightarrow> map_option Some (de j))"

definition deserialize_regex :: "(string \<Rightarrow> 're option) \<Rightarrow> Json \<Rightarrow> 're option option" where
  "deserialize_regex compile j = do {
     s \<leftarrow> de_option de_string j;
     (case s of
        Some s \<Rightarrow> map_option Some (compile s)
      | None \<Rightarrow> Some None) }"

text \<open>\<open>PathVisitor\<close>: a string, or an array read element by element.\<close>

fun visit_seq :: "Json list \<Rightarrow> string list option" where
  "visit_seq [] = Some []"
| "visit_seq (j # js) = do {
     s \<leftarrow> de_string j;
     v \<leftarrow> visit_seq js;
     Some (s # v) }"

definition PathVisitor :: "Json \<Rightarrow> string list option" where
  "PathVisitor j =
     (case j of
        JString v \<Rightarrow> Some [v]
      | JArray seq \<Rightarrow> visit_seq seq
      | _ \<Rightarrow> None)"

text \<open>\<open>deserialize_path\<close> with \<open>OptPathVisitor\<close>: null is no path.\<close>

definition deserialize_path :: "Json \<Rightarrow> string list option option" where
  "deserialize_path j = (case j of JNull \<Rightarrow> Some None | _ \<Rightarrow> map_option Some (PathVisitor j))"

text \<open>A field that is absent takes its default; a field that is present must be readable.\<close>

definition field :: "(string \<times> Json) list \<Rightarrow> string \<Rightarrow> 'a \<Rightarrow> (Json \<Rightarrow> 'a option) \<Rightarrow> 'a option" where
  "field obj name dflt de = (case map_of obj name of None \<Rightarrow> Some dflt | Some j \<Rightarrow> de j)"

definition field_names :: "string list" where
  "field_names =
     [''lcm_url'', ''key_prefix'', ''allow'', ''deny'', ''network_interface'', ''max_message_size'',
      ''work_thread_num'', ''max_block_thread_num'', ''__required__'', ''__path__'']"

definition deserialize_fields :: "(string \<Rightarrow> 're option) \<Rightarrow> (string \<times> Json) list \<Rightarrow> 're Config option" where
  "deserialize_fields compile obj = do {
     lcm_url' \<leftarrow> field obj ''lcm_url'' DEFAULT_LCM_URL de_string;
     key_prefix' \<leftarrow> field obj ''key_prefix'' DEFAULT_KEY_PREFIX de_string;
     allow' \<leftarrow> field obj ''allow'' None (deserialize_regex compile);
     deny' \<leftarrow> field obj ''deny'' None (deserialize_regex compile);
     network_interface' \<leftarrow> field obj ''network_interface'' None (de_option de_string);
     max_message_size' \<leftarrow> field obj ''max_message_size'' CONFIG_MAX_MESSAGE_SIZE de_usize;
     work_thread_num' \<leftarrow> field obj ''work_thread_num'' DEFAULT_WORK_THREAD_NUM de_usize;
     max_block_thread_num' \<leftarrow> field obj ''max_block_thread_num'' DEFAULT_MAX_BLOCK_THREAD_NUM de_usize;
     required' \<leftarrow> field obj ''__required__'' None (de_option de_bool);
     path' \<leftarrow> field obj ''__path__'' None deserialize_path;
     Some \<lparr>lcm_url = lcm_url', key_prefix = key_prefix', allow = allow', deny = deny',
           network_interface = network_interface', cfg_max_message_size = max_message_size',
           work_thread_num = work_thread_num', max_block_thread_num = max_block_thread_num',
           required = required', path = path'\<rparr> }"

text \<open>
  \<open>serde_json::from_value::<Config>\<close>. The derived reader takes an object, whose fields must be
  known, or an array of the fields in order; \<open>__required__\<close> has no default there, so the array
  has at least nine elements.
\<close>

definition deserialize_config :: "(string \<Rightarrow> 're option) \<Rightarrow> Json \<Rightarrow> 're Config option" where
  "deserialize_config compile j =
     (case j of
        JObject obj \<Rightarrow>
          if list_all (\<lambda>(k, _). k \<in> set field_names) obj then deserialize_fields compile obj else None
      | JArray js \<Rightarrow>
          if 9 \<le> length js \<and> length js \<le> length field_names
          then deserialize_fields compile (zip field_names js) else None
      | _ \<Rightarrow> None)"

section \<open>Writing\<close>

definition serialize_allow :: "('re \<Rightarrow> string) \<Rightarrow> 're option \<Rightarrow> Json" where
  "serialize_allow pattern v = JString (case v of None \<Rightarrow> ''.*'' | Some re \<Rightarrow> pattern re)"

definition serialize_deny :: "('re \<Rightarrow> string) \<Rightarrow> 're option \<Rightarrow> Json" where
  "serialize_deny pattern v = JString (case v of None \<Rightarrow> '''' | Some re \<Rightarrow> pattern re)"

definition ser_option :: "('a \<Rightarrow> Json) \<Rightarrow> 'a option \<Rightarrow> Json" where
  "ser_option ser v = (case v of None \<Rightarrow> JNull | Some x \<Rightarrow> ser x)"

definition serialize_config :: "('re \<Rightarrow> string) \<Rightarrow> 're Config \<Rightarrow> Json" where
  "serialize_config pattern config =
     JObject
       [(''lcm_url'', JString (lcm_url config)),
        (''key_prefix'', JString (key_prefix config)),
        (''allow'', serialize_allow pattern (allow config)),
        (''deny'', serialize_deny pattern (deny config)),
        (''network_interface'', ser_option JString (network_interface config)),
        (''max_message_size'', JNumber (PosInt (cfg_max_message_size config))),
        (''work_thread_num'', JNumber (PosInt (work_thread_num config))),
        (''max_block_thread_num'', JNumber (PosInt (max_block_thread_num config))),
        (''__required__'', ser_option JBool (required config)),
        (''__path__'', ser_option (\<lambda>v. JArray (map JString v)) (path config))]"

section \<open>Lemmas\<close>

text \<open>The numbers of a configuration fit \<open>usize\<close>.\<close>

definition config_ok :: "'re Config \<Rightarrow> bool" where
  "config_ok config \<longleftrightarrow> cfg_max_message_size config < 2 ^ 64 \<and> work_thread_num config < 2 ^ 64 \<and>
     max_block_thread_num config < 2 ^ 64"

lemma visit_seq_strings [simp]: "visit_seq (map JString v) = Some v"
  by (induction v) simp_all

lemma de_option_not_null: "j \<noteq> JNull \<Longrightarrow> de_option de j = map_option Some (de j)"
  by (cases j) (simp_all add: de_option_def)

lemma de_option_ser [simp]:
  "(\<And>x. de (ser x) = Some x) \<Longrightarrow> (\<And>x. ser x \<noteq> JNull) \<Longrightarrow> de_option de (ser_option ser v) = Some v"
  by (cases v) (simp_all add: ser_option_def de_option_not_null, simp add: de_option_def)

lemma deserialize_path_ser [simp]:
  "deserialize_path (ser_option (\<lambda>v. JArray (map JString v)) v) = Some v"
  by (simp add: deserialize_path_def ser_option_def PathVisitor_def split: option.split)

lemma deserialize_regex_string [simp]:
  "deserialize_regex compile (JString s) = map_option Some (compile s)"
  by (simp add: deserialize_regex_def de_option_def)

lemma deserialize_serialized:
  assumes "config_ok config"
  shows "deserialize_config compile (serialize_config pattern config) = do {
    a \<leftarrow> compile (case allow config of None \<Rightarrow> ''.*'' | Some re \<Rightarrow> pattern re);
    d \<leftarrow> compile (case deny config of None \<Rightarrow> '''' | Some re \<Rightarrow> pattern re);
    Some (config\<lparr>allow := Some a, deny := Some d\<rparr>) }"
  using assms
  by (simp add: deserialize_config_def serialize_config_def deserialize_fields_def field_def
      field_names_def serialize_allow_def serialize_deny_def config_ok_def bind_map_option comp_def
      split: bind_split)

text \<open>With both filters set, every field survives being written and read back.\<close>

lemma config_roundtrip:
  assumes "config_ok config" and "allow config = Some a" and "deny config = Some d"
    and "compile (pattern a) = Some a" and "compile (pattern d) = Some d"
  shows "deserialize_config compile (serialize_config pattern config) = Some config"
  using assms by (simp add: deserialize_serialized)

lemma deserialize_fields_ok:
  assumes "deserialize_fields compile obj = Some c"
  shows "config_ok c"
proof -
  have "n < 2 ^ 64" if "field obj name d de_usize = Some n" "d < 2 ^ 64" for name d n
    using that by (auto simp: field_def elim!: de_usize.elims split: option.splits if_splits)
  with assms show ?thesis
    by (auto simp: deserialize_fields_def config_ok_def bind_eq_Some_conv
        CONFIG_MAX_MESSAGE_SIZE_def DEFAULT_WORK_THREAD_NUM_def DEFAULT_MAX_BLOCK_THREAD_NUM_def)
qed

section \<open>What each reader accepts\<close>

lemma de_string_iff: "de_string j = Some s \<longleftrightarrow> j = JString s"
  by (cases j) auto

lemma de_usize_iff: "de_usize j = Some n \<longleftrightarrow> j = JNumber (PosInt n) \<and> n < 2 ^ 64"
  by (cases j rule: de_usize.cases) auto

lemma de_bool_iff: "de_bool j = Some b \<longleftrightarrow> j = JBool b"
  by (cases j) auto

lemma de_option_iff:
  "de JNull = None \<Longrightarrow> de_option de j = Some v \<longleftrightarrow> j = JNull \<and> v = None \<or> (\<exists>x. de j = Some x \<and> v = Some x)"
  by (cases j) (auto simp: de_option_def)

lemma de_option_string_iff:
  "de_option de_string j = Some v \<longleftrightarrow> j = JNull \<and> v = None \<or> (\<exists>s. j = JString s \<and> v = Some s)"
  by (simp add: de_option_iff de_string_iff)

lemma de_option_bool_iff:
  "de_option de_bool j = Some v \<longleftrightarrow> j = JNull \<and> v = None \<or> (\<exists>b. j = JBool b \<and> v = Some b)"
  by (simp add: de_option_iff de_bool_iff)

lemma deserialize_regex_iff:
  "deserialize_regex compile j = Some v \<longleftrightarrow>
     j = JNull \<and> v = None \<or> (\<exists>s re. j = JString s \<and> compile s = Some re \<and> v = Some re)"
  by (auto simp: deserialize_regex_def bind_eq_Some_conv de_option_string_iff split: option.splits)

lemma visit_seq_iff: "visit_seq js = Some v \<longleftrightarrow> js = map JString v"
  by (induction js arbitrary: v) (auto simp: bind_eq_Some_conv de_string_iff Cons_eq_map_conv)

lemma deserialize_path_iff:
  "deserialize_path j = Some v \<longleftrightarrow> j = JNull \<and> v = None \<or> (\<exists>s. j = JString s \<and> v = Some [s]) \<or>
     (\<exists>ps. j = JArray (map JString ps) \<and> v = Some ps)"
  by (cases j) (auto simp: deserialize_path_def PathVisitor_def visit_seq_iff)

lemma field_iff:
  "field obj name d de = Some v \<longleftrightarrow> (case map_of obj name of None \<Rightarrow> v = d | Some j \<Rightarrow> de j = Some v)"
  by (auto simp: field_def split: option.split)

lemma deserialize_fields_iff:
  "deserialize_fields compile obj = Some c \<longleftrightarrow>
     field obj ''lcm_url'' DEFAULT_LCM_URL de_string = Some (lcm_url c) \<and>
     field obj ''key_prefix'' DEFAULT_KEY_PREFIX de_string = Some (key_prefix c) \<and>
     field obj ''allow'' None (deserialize_regex compile) = Some (allow c) \<and>
     field obj ''deny'' None (deserialize_regex compile) = Some (deny c) \<and>
     field obj ''network_interface'' None (de_option de_string) = Some (network_interface c) \<and>
     field obj ''max_message_size'' CONFIG_MAX_MESSAGE_SIZE de_usize = Some (cfg_max_message_size c) \<and>
     field obj ''work_thread_num'' DEFAULT_WORK_THREAD_NUM de_usize = Some (work_thread_num c) \<and>
     field obj ''max_block_thread_num'' DEFAULT_MAX_BLOCK_THREAD_NUM de_usize = Some (max_block_thread_num c) \<and>
     field obj ''__required__'' None (de_option de_bool) = Some (required c) \<and>
     field obj ''__path__'' None deserialize_path = Some (path c)"
  by (cases c) (auto simp: deserialize_fields_def bind_eq_Some_conv)

section \<open>Properties\<close>

text \<open>Claim C27. Exactly which JSON the reader accepts, and as what. From an object: no key but the ten
  fields, and for each field either it is absent and has its default, or its value is a string for the
  URL and the prefix, null or a string that compiles for a filter (which is then that regex, so an
  invalid regex is refused and never read as no filter), null or a string for the interface, an
  integer below 2 to the 64 for the three numbers, null or a boolean for \<open>__required__\<close>, and null, a
  string (a list of one) or an array of strings for \<open>__path__\<close>. An array of nine or ten values is read
  as the fields in order; everything else is refused.\<close>

theorem config_accepted:
  "(deserialize_config compile (JObject obj) = Some c \<longleftrightarrow>
     fst ` set obj \<subseteq> set
       [''lcm_url'', ''key_prefix'', ''allow'', ''deny'', ''network_interface'',
        ''max_message_size'', ''work_thread_num'', ''max_block_thread_num'', ''__required__'', ''__path__''] \<and>
     (case map_of obj ''lcm_url'' of
        None \<Rightarrow> lcm_url c = ''udpm://239.255.76.67:7667?ttl=0'' | Some j \<Rightarrow> j = JString (lcm_url c)) \<and>
     (case map_of obj ''key_prefix'' of None \<Rightarrow> key_prefix c = ''lcm'' | Some j \<Rightarrow> j = JString (key_prefix c)) \<and>
     (case map_of obj ''allow'' of None \<Rightarrow> allow c = None
        | Some j \<Rightarrow> j = JNull \<and> allow c = None \<or>
            (\<exists>s re. j = JString s \<and> compile s = Some re \<and> allow c = Some re)) \<and>
     (case map_of obj ''deny'' of None \<Rightarrow> deny c = None
        | Some j \<Rightarrow> j = JNull \<and> deny c = None \<or>
            (\<exists>s re. j = JString s \<and> compile s = Some re \<and> deny c = Some re)) \<and>
     (case map_of obj ''network_interface'' of None \<Rightarrow> network_interface c = None
        | Some j \<Rightarrow> j = JNull \<and> network_interface c = None \<or>
            (\<exists>s. j = JString s \<and> network_interface c = Some s)) \<and>
     (case map_of obj ''max_message_size'' of None \<Rightarrow> cfg_max_message_size c = 4194304
        | Some j \<Rightarrow> j = JNumber (PosInt (cfg_max_message_size c)) \<and> cfg_max_message_size c < 2 ^ 64) \<and>
     (case map_of obj ''work_thread_num'' of None \<Rightarrow> work_thread_num c = 2
        | Some j \<Rightarrow> j = JNumber (PosInt (work_thread_num c)) \<and> work_thread_num c < 2 ^ 64) \<and>
     (case map_of obj ''max_block_thread_num'' of None \<Rightarrow> max_block_thread_num c = 50
        | Some j \<Rightarrow> j = JNumber (PosInt (max_block_thread_num c)) \<and> max_block_thread_num c < 2 ^ 64) \<and>
     (case map_of obj ''__required__'' of None \<Rightarrow> required c = None
        | Some j \<Rightarrow> j = JNull \<and> required c = None \<or> (\<exists>b. j = JBool b \<and> required c = Some b)) \<and>
     (case map_of obj ''__path__'' of None \<Rightarrow> path c = None
        | Some j \<Rightarrow> j = JNull \<and> path c = None \<or> (\<exists>s. j = JString s \<and> path c = Some [s]) \<or>
            (\<exists>ps. j = JArray (map JString ps) \<and> path c = Some ps))) \<and>
   deserialize_config compile (JArray js) =
     (if length js = 9 \<or> length js = 10 then deserialize_config compile (JObject (zip
       [''lcm_url'', ''key_prefix'', ''allow'', ''deny'', ''network_interface'',
        ''max_message_size'', ''work_thread_num'', ''max_block_thread_num'', ''__required__'', ''__path__''] js))
      else None) \<and>
   deserialize_config compile JNull = None \<and> deserialize_config compile (JBool b) = None \<and>
   deserialize_config compile (JNumber n) = None \<and> deserialize_config compile (JString s) = None"
  (is "(?accepted \<longleftrightarrow> ?described) \<and> ?others")
proof -
  have known: "list_all (\<lambda>(k, _). k \<in> set field_names) obj \<longleftrightarrow> fst ` set obj \<subseteq> set field_names" for obj :: "(string \<times> Json) list"
    by (auto simp: list_all_iff)
  have max_size: "CONFIG_MAX_MESSAGE_SIZE = 4194304" by (simp add: CONFIG_MAX_MESSAGE_SIZE_def)
  have "deserialize_config compile (JObject obj) = Some c \<longleftrightarrow>
      fst ` set obj \<subseteq> set field_names \<and> deserialize_fields compile obj = Some c"
    by (simp add: deserialize_config_def known)
  then have "?accepted \<longleftrightarrow> ?described"
    unfolding deserialize_fields_iff field_iff de_string_iff deserialize_regex_iff de_usize_iff
      deserialize_path_iff de_option_string_iff de_option_bool_iff
      DEFAULT_LCM_URL_def DEFAULT_KEY_PREFIX_def DEFAULT_WORK_THREAD_NUM_def DEFAULT_MAX_BLOCK_THREAD_NUM_def
      field_names_def max_size .
  moreover have "list_all (\<lambda>(k, _). k \<in> set field_names) (zip field_names js)"
    by (auto simp: list_all_iff dest: set_zip_leftD)
  then have "deserialize_config compile (JArray js) = (if length js = 9 \<or> length js = 10
      then deserialize_config compile (JObject (zip field_names js)) else None)"
    by (auto simp: deserialize_config_def) (auto simp: field_names_def)
  then have ?others unfolding field_names_def by (simp add: deserialize_config_def)
  ultimately show ?thesis by blast
qed

theorem config_accepted_witness:
  "\<exists>c. deserialize_config Some (JObject [(''allow'', JString ''POSE''), (''__path__'', JString ''/p'')]) = Some c \<and>
    allow c = Some ''POSE'' \<and> deny c = None \<and> key_prefix c = ''lcm'' \<and> path c = Some [''/p''] \<and>
    deserialize_config (\<lambda>_. None) (JObject [(''allow'', JString ''('')]) \<noteq> Some (c\<lparr>allow := None\<rparr>)"
proof -
  let ?c = "(Config_default :: string Config)\<lparr>allow := Some ''POSE'', path := Some [''/p'']\<rparr>"
  have "deserialize_config Some (JObject [(''allow'', JString ''POSE''), (''__path__'', JString ''/p'')]) = Some ?c"
    by (subst config_accepted [THEN conjunct1])
      (simp add: Config_default_def DEFAULT_LCM_URL_def DEFAULT_KEY_PREFIX_def CONFIG_MAX_MESSAGE_SIZE_def
        DEFAULT_WORK_THREAD_NUM_def DEFAULT_MAX_BLOCK_THREAD_NUM_def)
  moreover have "deserialize_config (\<lambda>_. None) (JObject [(''allow'', JString ''('')]) \<noteq> Some (?c\<lparr>allow := None\<rparr>)"
    by (subst config_accepted [THEN conjunct1]) simp
  ultimately show ?thesis
    by (intro exI [where x = ?c]) (simp add: Config_default_def DEFAULT_KEY_PREFIX_def)
qed

text \<open>Claim C38. A configuration without a deny filter does not survive: it is written with the empty
  pattern, and since that pattern matches every string, the configuration read back allows no
  channel at all, whatever its allow filter.\<close>

theorem reloaded_config_denies_all:
  fixes config :: "'re Config" and compile :: "string \<Rightarrow> 're option"
  assumes "config_ok config" and "deny config = None"
    and "compile '''' = Some e" and "\<And>s. is_match e s"
    and "compile (case allow config of None \<Rightarrow> ''.*'' | Some re \<Rightarrow> pattern re) = Some a"
  shows "\<exists>config'. deserialize_config compile (serialize_config pattern config) = Some config' \<and>
    (\<forall>channel. \<not> is_allowed is_match channel config')"
proof (intro exI conjI)
  show "deserialize_config compile (serialize_config pattern config) =
      Some (config\<lparr>allow := Some a, deny := Some e\<rparr>)"
    using assms(2,3,5) by (simp add: deserialize_serialized [OF assms(1)])
  show "\<forall>channel. \<not> is_allowed is_match channel (config\<lparr>allow := Some a, deny := Some e\<rparr>)"
    using assms(4) by (simp add: is_allowed_iff)
qed

text \<open>A regex that is a plain word, with the empty pattern matching everywhere.\<close>

theorem reloaded_config_denies_all_witness:
  "is_allowed (\<lambda>re s. re = '''' \<or> re = s) ''POSE'' (Config_default :: string Config) \<and>
    (\<exists>config'. deserialize_config Some (serialize_config id (Config_default :: string Config)) = Some config' \<and>
      (\<forall>channel. \<not> is_allowed (\<lambda>re s. re = '''' \<or> re = s) channel config'))"
  using reloaded_config_denies_all [of "Config_default :: string Config" Some "''''" "\<lambda>re s. re = '''' \<or> re = s"
      id "''.*''"]
  by (simp add: config_ok_def Config_default_def is_allowed_def CONFIG_MAX_MESSAGE_SIZE_def
      DEFAULT_WORK_THREAD_NUM_def DEFAULT_MAX_BLOCK_THREAD_NUM_def)

end
