(* ===== verification/Plugin.thy ===== *)
theory Plugin
  imports Config_Json Lcm_To_Zenoh
begin

text \<open>
  The plugin around the two tasks, \<open>zenoh-plugin-lcm/src/lib.rs\<close>: \<open>start\<close> reads the configuration
  and spawns \<open>run\<close>, \<open>run\<close> builds the transport and spawns the tasks, and \<open>adminspace_getter\<close>
  answers queries. The zenoh runtime, tokio and the socket are outside: what they answer is an
  argument. The section on shutdown follows the two tasks from their start to their abort.
\<close>

section \<open>The tokio runtime of the plugin\<close>

text \<open>The statics of the crate; the lazy runtime exists once it has been used, with the thread
  numbers of that moment.\<close>

record globals =
  WORK_THREAD_NUM :: usize
  MAX_BLOCK_THREAD_NUM :: usize
  TOKIO_RUNTIME :: "(usize \<times> usize) option"

definition globals_init :: globals where
  "globals_init = \<lparr>WORK_THREAD_NUM = DEFAULT_WORK_THREAD_NUM,
                   MAX_BLOCK_THREAD_NUM = DEFAULT_MAX_BLOCK_THREAD_NUM, TOKIO_RUNTIME = None\<rparr>"

text \<open>Forcing the lazy static. tokio's builder panics on a thread number of zero; whether the
  operating system then grants the runtime is \<open>build_ok\<close>.\<close>

definition force_runtime :: "bool \<Rightarrow> globals \<Rightarrow> globals may_panic" where
  "force_runtime build_ok g =
     (case TOKIO_RUNTIME g of
        Some rt \<Rightarrow> Ret g
      | None \<Rightarrow>
          if WORK_THREAD_NUM g = 0 \<or> MAX_BLOCK_THREAD_NUM g = 0 \<or> \<not> build_ok then Panic
          else Ret (g\<lparr>TOKIO_RUNTIME := Some (WORK_THREAD_NUM g, MAX_BLOCK_THREAD_NUM g)\<rparr>))"

text \<open>\<open>spawn_runtime\<close>: on the current runtime where there is one, else on the plugin's.\<close>

definition spawn_runtime :: "bool \<Rightarrow> bool \<Rightarrow> globals \<Rightarrow> globals may_panic" where
  "spawn_runtime in_runtime build_ok g = (if in_runtime then Ret g else force_runtime build_ok g)"

section \<open>Starting the plugin\<close>

definition DEFAULT_NAME :: string where "DEFAULT_NAME = ''lcm''"

datatype start_error = MissingConfig string | ConfigurationError string

text \<open>\<open>start\<close>: \<open>plugin_conf\<close> is what \<open>get_plugin_config(name)\<close> returns. The result holds the
  configuration kept for the admin space; \<open>run\<close> is spawned with the same one.\<close>

definition start ::
  "(string \<Rightarrow> 're option) \<Rightarrow> bool \<Rightarrow> bool \<Rightarrow> string \<Rightarrow> Json option \<Rightarrow> globals
     \<Rightarrow> (globals \<times> (start_error + 're Config)) may_panic" where
  "start compile in_runtime build_ok name plugin_conf g =
     (case plugin_conf of
        None \<Rightarrow> Ret (g, Inl (MissingConfig name))
      | Some conf \<Rightarrow>
          (case deserialize_config compile conf of
             None \<Rightarrow> Ret (g, Inl (ConfigurationError name))
           | Some config \<Rightarrow> do {
               let g = g\<lparr>WORK_THREAD_NUM := work_thread_num config,
                         MAX_BLOCK_THREAD_NUM := max_block_thread_num config\<rparr>;
               g \<leftarrow> spawn_runtime in_runtime build_ok g;
               Ret (g, Inr config) }))"

datatype 'e run_error =
    SessionFailed
  | InvalidLcmUrl string UrlError
  | TransportFailed "'e io_error"

text \<open>The state the two tasks start from: one transport and one set, shared.\<close>

record 're tasks =
  t_transport :: LcmTransport
  t_config :: "'re Config"
  t_sent_sequences :: sent_sequences

definition parse_interface :: "'re Config \<Rightarrow> Ipv4Addr option" where
  "parse_interface config = Option.bind (network_interface config) parse_ipv4"

definition transport_config :: "LcmUrl \<Rightarrow> 're Config \<Rightarrow> LcmTransportConfig" where
  "transport_config url config =
     LcmTransportConfig_default\<lparr>tc_lcm_url := url, tc_network_interface := parse_interface config,
       tc_max_message_size := cfg_max_message_size config\<rparr>"

definition run ::
  "bool \<Rightarrow> (SocketCall list \<Rightarrow> SocketCall \<Rightarrow> 'e option) \<Rightarrow> 're Config
     \<Rightarrow> SocketCall list \<times> ('e run_error + 're tasks)" where
  "run session_ok sock config =
     (if \<not> session_ok then ([], Inl SessionFailed)
      else case LcmUrl_parse (lcm_url config) of
        Inl e \<Rightarrow> ([], Inl (InvalidLcmUrl (lcm_url config) e))
      | Inr url \<Rightarrow>
          (case LcmTransport_new sock (transport_config url config) of
             (calls, Inl e) \<Rightarrow> (calls, Inl (TransportFailed e))
           | (calls, Inr transport) \<Rightarrow>
               (calls, Inr \<lparr>t_transport = transport, t_config = config, t_sent_sequences = {}\<rparr>)))"

section \<open>Shutdown\<close>

text \<open>The handles of the two tasks: a task runs, has ended by itself, or was aborted.\<close>

datatype task_status = Running | Ended | Aborted

record 're plugin_run =
  run_tasks :: "'re tasks"
  lcm_to_zenoh_handle :: task_status
  zenoh_to_lcm_handle :: task_status

definition spawn_tasks :: "'re tasks \<Rightarrow> 're plugin_run" where
  "spawn_tasks t = \<lparr>run_tasks = t, lcm_to_zenoh_handle = Running, zenoh_to_lcm_handle = Running\<rparr>"

text \<open>\<open>JoinHandle::abort\<close>; it does nothing to a task that has ended.\<close>

fun abort :: "task_status \<Rightarrow> task_status" where
  "abort Running = Aborted"
| "abort status = status"

text \<open>What \<open>run\<close> does once the receiver resolves, that is once the plugin, which holds the only
  sender, is dropped.\<close>

definition shutdown :: "'re plugin_run \<Rightarrow> 're plugin_run" where
  "shutdown r =
     r\<lparr>lcm_to_zenoh_handle := abort (lcm_to_zenoh_handle r),
       zenoh_to_lcm_handle := abort (zenoh_to_lcm_handle r)\<rparr>"

text \<open>The life of a plugin: either task may end by itself, and dropping the plugin shuts it down. The
  flag says whether the plugin still exists.\<close>

inductive plugin_step :: "bool \<times> 're plugin_run \<Rightarrow> bool \<times> 're plugin_run \<Rightarrow> bool" where
  lcm_task_ends: "lcm_to_zenoh_handle r = Running \<Longrightarrow>
    plugin_step (alive, r) (alive, r\<lparr>lcm_to_zenoh_handle := Ended\<rparr>)"
| zenoh_task_ends: "zenoh_to_lcm_handle r = Running \<Longrightarrow>
    plugin_step (alive, r) (alive, r\<lparr>zenoh_to_lcm_handle := Ended\<rparr>)"
| plugin_dropped: "plugin_step (True, r) (False, shutdown r)"

inductive_cases plugin_stepE: "plugin_step (alive, r) s"

section \<open>The admin space\<close>

text \<open>\<open>String::truncate\<close>: nothing for a larger length, a panic inside a character.\<close>

definition is_char_boundary :: "string \<Rightarrow> usize \<Rightarrow> bool" where
  "is_char_boundary s n \<longleftrightarrow> n = 0 \<or> n = length s \<or> (n < length s \<and> \<not> cont (byte_of_char (s ! n)))"

definition truncate :: "string \<Rightarrow> usize \<Rightarrow> string may_panic" where
  "truncate s n =
     (if n \<le> length s then if is_char_boundary s n then Ret (take n s) else Panic else Ret s)"

definition with_extended_string ::
  "string \<Rightarrow> string list \<Rightarrow> (string \<Rightarrow> (string \<times> 'r) may_panic) \<Rightarrow> (string \<times> 'r) may_panic" where
  "with_extended_string prefix suffixes closure = do {
     let prefix_len = length prefix;
     let prefix = fold (\<lambda>suffix prefix. prefix @ suffix) suffixes prefix;
     (prefix, result) \<leftarrow> closure prefix;
     prefix \<leftarrow> truncate prefix prefix_len;
     Ret (prefix, result) }"

type_synonym Response = "string \<times> Json"

text \<open>\<open>valid_ke\<close> and \<open>intersects\<close> are zenoh's; \<open>lock_ok\<close> says that the mutex is not poisoned.\<close>

definition adminspace_getter ::
  "(string \<Rightarrow> bool) \<Rightarrow> (KeyExpr \<Rightarrow> KeyExpr \<Rightarrow> bool) \<Rightarrow> bool \<Rightarrow> string \<Rightarrow> ('re \<Rightarrow> string) \<Rightarrow> 're Config
     \<Rightarrow> KeyExpr \<Rightarrow> string \<Rightarrow> Response list may_panic" where
  "adminspace_getter valid_ke intersects lock_ok GIT_VERSION pattern config key_expr plugin_status_key = do {
     let responses = [];
     let key = plugin_status_key;
     (key, responses) \<leftarrow> with_extended_string key [''/version''] (\<lambda>key.
       if \<not> valid_ke key then Panic
       else if intersects key key_expr then Ret (key, responses @ [(key, JString GIT_VERSION)])
       else Ret (key, responses));
     (key, responses) \<leftarrow> with_extended_string key [''/config''] (\<lambda>key.
       if \<not> valid_ke key then Panic
       else if intersects key key_expr \<and> lock_ok
       then Ret (key, responses @ [(key, serialize_config pattern config)])
       else Ret (key, responses));
     Ret responses }"

section \<open>Lemmas\<close>

lemma truncate_prefix: "t \<noteq> [] \<Longrightarrow> \<not> cont (byte_of_char (hd t)) \<Longrightarrow> truncate (s @ t) (length s) = Ret s"
  by (simp add: truncate_def is_char_boundary_def nth_append hd_conv_nth)

lemma not_cont_slash [simp]: "\<not> cont (byte_of_char CHR ''/'')"
  by (simp add: cont_def in_span_def byte_of_char_def)

text \<open>A closure that gives the string back unchanged: the prefix is restored.\<close>

lemma with_extended_string_restores:
  assumes "closure (prefix @ CHR ''/'' # s) = Ret (prefix @ CHR ''/'' # s, res)"
  shows "with_extended_string prefix [CHR ''/'' # s] closure = Ret (prefix, res)"
  using assms by (simp add: with_extended_string_def truncate_prefix)

lemma with_extended_string_panics:
  assumes "closure (prefix @ s) = Panic"
  shows "with_extended_string prefix [s] closure = Panic"
  using assms by (simp add: with_extended_string_def)

lemma parse_default_url: "LcmUrl_parse DEFAULT_LCM_URL = Inr LcmUrl_default"
proof -
  have "render_url LcmUrl_default = DEFAULT_LCM_URL"
    by (simp add: render_url_def render_query_def LcmUrl_default_def DEFAULT_LCM_URL_def
        decimal_large decimal_small digit_char_def char_of_eq_iff)
  then show ?thesis
    using parse_rendered [of LcmUrl_default 0 0] by (simp add: LcmUrl_default_def)
qed

text \<open>A thread number of zero is accepted by the configuration reader, and the plugin then
  panics at its start wherever its own runtime is needed.\<close>

lemma zero_threads_panic:
  assumes "deserialize_config compile conf = Some config"
    and "work_thread_num config = 0 \<or> max_block_thread_num config = 0" and "TOKIO_RUNTIME g = None"
  shows "start compile False build_ok name (Some conf) g = Panic"
  using assms by (auto simp: start_def Let_def spawn_runtime_def force_runtime_def)

lemma zero_threads_example:
  "start Some False True ''lcm'' (Some (JObject [(''work_thread_num'', JNumber (PosInt 0))])) globals_init = Panic"
proof -
  have "deserialize_config Some (JObject [(''work_thread_num'', JNumber (PosInt 0))]) =
      Some (Config_default\<lparr>work_thread_num := 0\<rparr>)"
    by (simp add: deserialize_config_def field_names_def deserialize_fields_def field_def Config_default_def)
  from zero_threads_panic [OF this] show ?thesis by (simp add: globals_init_def)
qed

text \<open>Shutdown leaves no task running, and none runs again.\<close>

lemma abort_not_running [simp]: "abort status \<noteq> Running"
  by (cases status) simp_all

lemma dropped_plugin_stays_stopped:
  assumes "plugin_step\<^sup>*\<^sup>* (True, spawn_tasks t) (alive, r)"
  shows "run_tasks r = t \<and> (\<not> alive \<longrightarrow> lcm_to_zenoh_handle r \<noteq> Running \<and> zenoh_to_lcm_handle r \<noteq> Running)
    \<and> (alive \<longrightarrow> lcm_to_zenoh_handle r \<noteq> Aborted \<and> zenoh_to_lcm_handle r \<noteq> Aborted)"
  using assms
proof (induction "(alive, r)" arbitrary: alive r rule: rtranclp_induct)
  case base
  then show ?case by (simp add: spawn_tasks_def)
next
  case (step s)
  then show ?case by (cases s) (auto elim!: plugin_stepE simp: shutdown_def)
qed

lemma shutdown_twice: "shutdown (shutdown r) = shutdown r"
  by (cases "lcm_to_zenoh_handle r"; cases "zenoh_to_lcm_handle r") (simp_all add: shutdown_def)

section \<open>Properties\<close>

text \<open>Claim C26. The complete behaviour of \<open>run\<close> up to the start of the tasks. Without a session it
  answers that error and touches no socket; a URL that does not parse is answered with its error,
  again before any socket call. Otherwise the calls on the socket are, in this order: create it, reuse of address and port,
  non-blocking, bind to the URL's port, the receive buffer when the URL asks for one, the TTL of the
  URL, loopback on, join the URL's group on the configured interface (any interface when none is given or it is
  no IPv4 address), hand over to tokio. When all succeed, all are made and the tasks share a transport
  to the URL's group and port with the default MTU and counter 0, the configuration and an empty set
  of sent numbers; when one fails, its error is answered and it is the last call made.\<close>

theorem startup_outcomes:
  "run False sock config = ([], Inl SessionFailed) \<and>
   (\<forall>e. LcmUrl_parse (lcm_url config) = Inl e \<longrightarrow>
     run True sock config = ([], Inl (InvalidLcmUrl (lcm_url config) e))) \<and>
   (\<forall>url interface calls. LcmUrl_parse (lcm_url config) = Inr url \<and>
     interface = (case network_interface config of None \<Rightarrow> Ipv4Addr 0 0 0 0
       | Some s \<Rightarrow> (case parse_ipv4 s of None \<Rightarrow> Ipv4Addr 0 0 0 0 | Some i \<Rightarrow> i)) \<and>
     calls = [SocketNew, SetReuseAddress True, SetReusePort True, SetNonblocking True,
         Bind (Ipv4Addr 0 0 0 0) (port url)]
       @ (case recv_buf_size url of None \<Rightarrow> [] | Some n \<Rightarrow> [SetRecvBufferSize n])
       @ [SetMulticastTtlV4 (ttl url), SetMulticastLoopV4 True,
          JoinMulticastV4 (multicast_group url) interface, FromStd] \<longrightarrow>
     ((\<forall>i < length calls. sock (take i calls) (calls ! i) = None) \<longrightarrow>
       run True sock config = (calls, Inr \<lparr>t_transport = \<lparr>multicast_addr = SocketAddrV4 (multicast_group url) (port url),
         fragment_mtu = 1400, sequence_counter = 0\<rparr>, t_config = config, t_sent_sequences = {}\<rparr>)) \<and>
     (\<forall>i < length calls. \<forall>e. (\<forall>j < i. sock (take j calls) (calls ! j) = None) \<and>
       sock (take i calls) (calls ! i) = Some e \<longrightarrow>
       run True sock config = (take (Suc i) calls, Inl (TransportFailed (OsError e)))))"
proof (intro conjI allI impI)
  show "run False sock config = ([], Inl SessionFailed)" by (simp add: run_def)
next
  fix e
  assume "LcmUrl_parse (lcm_url config) = Inl e"
  then show "run True sock config = ([], Inl (InvalidLcmUrl (lcm_url config) e))" by (simp add: run_def)
next
  fix url interface calls
  assume *: "LcmUrl_parse (lcm_url config) = Inr url \<and>
     interface = (case network_interface config of None \<Rightarrow> Ipv4Addr 0 0 0 0
       | Some s \<Rightarrow> (case parse_ipv4 s of None \<Rightarrow> Ipv4Addr 0 0 0 0 | Some i \<Rightarrow> i)) \<and>
     calls = [SocketNew, SetReuseAddress True, SetReusePort True, SetNonblocking True,
         Bind (Ipv4Addr 0 0 0 0) (port url)]
       @ (case recv_buf_size url of None \<Rightarrow> [] | Some n \<Rightarrow> [SetRecvBufferSize n])
       @ [SetMulticastTtlV4 (ttl url), SetMulticastLoopV4 True,
          JoinMulticastV4 (multicast_group url) interface, FromStd]"
  then have calls: "socket_calls (transport_config url config) = calls"
    by (auto simp: socket_calls_def transport_config_def parse_interface_def UNSPECIFIED_def Let_def
        split: option.split)
  {
    assume "\<forall>i < length calls. sock (take i calls) (calls ! i) = None"
    then have "run_calls sock [] calls = (calls, None)" using run_calls_succeed [of calls sock "[]"] by simp
    then show "run True sock config = (calls, Inr \<lparr>t_transport = \<lparr>multicast_addr =
        SocketAddrV4 (multicast_group url) (port url), fragment_mtu = 1400, sequence_counter = 0\<rparr>,
        t_config = config, t_sent_sequences = {}\<rparr>)"
      using * by (simp add: run_def LcmTransport_new_def calls)
        (simp add: transport_config_def LcmTransportConfig_default_def DEFAULT_FRAGMENT_MTU_def)
  next
    fix i e
    assume "i < length calls" and "(\<forall>j < i. sock (take j calls) (calls ! j) = None) \<and>
      sock (take i calls) (calls ! i) = Some e"
    then have "run_calls sock [] calls = (take (Suc i) calls, Some e)"
      using run_calls_fail [of i calls sock "[]" e] by simp
    then show "run True sock config = (take (Suc i) calls, Inl (TransportFailed (OsError e)))"
      using * by (simp add: run_def LcmTransport_new_def calls)
  }
qed

text \<open>The default configuration: a socket that grants everything, one that refuses to join the group, and
  a URL that is none.\<close>

theorem startup_outcomes_witness:
  "run True (\<lambda>_ _. None :: nat option) (Config_default :: unit Config) =
     ([SocketNew, SetReuseAddress True, SetReusePort True, SetNonblocking True, Bind (Ipv4Addr 0 0 0 0) 7667,
       SetMulticastTtlV4 0, SetMulticastLoopV4 True, JoinMulticastV4 (Ipv4Addr 239 255 76 67) (Ipv4Addr 0 0 0 0),
       FromStd],
      Inr \<lparr>t_transport = \<lparr>multicast_addr = SocketAddrV4 (Ipv4Addr 239 255 76 67) 7667, fragment_mtu = 1400,
        sequence_counter = 0\<rparr>, t_config = Config_default, t_sent_sequences = {}\<rparr>) \<and>
   run True (\<lambda>cs c. if length cs = 7 then Some (9 :: nat) else None) (Config_default :: unit Config) =
     ([SocketNew, SetReuseAddress True, SetReusePort True, SetNonblocking True, Bind (Ipv4Addr 0 0 0 0) 7667,
       SetMulticastTtlV4 0, SetMulticastLoopV4 True, JoinMulticastV4 (Ipv4Addr 239 255 76 67) (Ipv4Addr 0 0 0 0)],
      Inl (TransportFailed (OsError 9)))"
proof -
  let ?config = "Config_default :: unit Config"
  let ?calls = "[SocketNew, SetReuseAddress True, SetReusePort True, SetNonblocking True, Bind (Ipv4Addr 0 0 0 0) 7667,
       SetMulticastTtlV4 0, SetMulticastLoopV4 True, JoinMulticastV4 (Ipv4Addr 239 255 76 67) (Ipv4Addr 0 0 0 0),
       FromStd]"
  have url: "LcmUrl_parse (lcm_url ?config) = Inr LcmUrl_default"
    using parse_default_url by (simp add: Config_default_def)
  have default: "port LcmUrl_default = 7667" "ttl LcmUrl_default = 0" "recv_buf_size LcmUrl_default = None"
    "multicast_group LcmUrl_default = Ipv4Addr 239 255 76 67" "network_interface ?config = None"
    by (simp_all add: LcmUrl_default_def Config_default_def)
  note out = startup_outcomes [where config = ?config, THEN conjunct2, THEN conjunct2, rule_format,
      OF conjI [OF url conjI [OF refl refl]], unfolded default option.case append_Nil append_Cons]
  have "run True (\<lambda>_ _. None :: nat option) ?config = (?calls, Inr \<lparr>t_transport = \<lparr>multicast_addr =
      SocketAddrV4 (Ipv4Addr 239 255 76 67) 7667, fragment_mtu = 1400,
        sequence_counter = 0\<rparr>, t_config = Config_default, t_sent_sequences = {}\<rparr>)"
    using out [where sock = "\<lambda>_ _. None :: nat option"] by simp
  moreover have "run True (\<lambda>cs c. if length cs = 7 then Some (9 :: nat) else None) ?config =
      (take (Suc 7) ?calls, Inl (TransportFailed (OsError 9)))"
    by (rule out [where sock = "\<lambda>cs c. if length cs = 7 then Some (9 :: nat) else None", THEN conjunct2,
        rule_format]) auto
  ultimately show ?thesis by simp
qed

text \<open>Claim C39. A network interface that is not an IPv4 address is ignored without an error: the
  startup is the one of a configuration without an interface, and the group is joined on the
  unspecified address.\<close>

theorem invalid_interface_ignored:
  assumes "network_interface config = Some s" and "parse_ipv4 s = None"
  shows "fst (run session_ok sock config) = fst (run session_ok sock (config\<lparr>network_interface := None\<rparr>)) \<and>
    (\<forall>grp i. JoinMulticastV4 grp i \<in> set (fst (run session_ok sock config)) \<longrightarrow> i = UNSPECIFIED)"
proof -
  have cfg: "transport_config url config = transport_config url (config\<lparr>network_interface := None\<rparr>)" for url
    using assms by (simp add: transport_config_def parse_interface_def)
  have "i = UNSPECIFIED" if "JoinMulticastV4 grp i \<in> set (fst (run session_ok sock config))" for grp i
  proof (cases "LcmUrl_parse (lcm_url config)")
    case (Inr url)
    let ?calls = "socket_calls (transport_config url config)"
    obtain n where n: "fst (run_calls sock [] ?calls) = take n ?calls"
      using run_calls_prefix [of sock "[]" ?calls] by auto
    have "fst (LcmTransport_new sock (transport_config url config)) = fst (run_calls sock [] ?calls)"
      by (simp add: LcmTransport_new_def split: prod.split option.split)
    then have "fst (run session_ok sock config) = [] \<or> fst (run session_ok sock config) = take n ?calls"
      using Inr n by (auto simp: run_def split: prod.split sum.split)
    then have "JoinMulticastV4 grp i \<in> set ?calls" using that by (auto dest: in_set_takeD)
    then show ?thesis
      using assms by (auto simp: socket_calls_def Let_def transport_config_def parse_interface_def
          split: option.splits)
  qed (use that in \<open>simp add: run_def split: if_splits\<close>)
  moreover have "fst (run session_ok sock config) = fst (run session_ok sock (config\<lparr>network_interface := None\<rparr>))"
    by (simp add: run_def cfg split: sum.split prod.split)
  ultimately show ?thesis by blast
qed

theorem invalid_interface_ignored_witness:
  "run True (\<lambda>_ _. None :: nat option) (Config_default\<lparr>network_interface := Some ''eth0''\<rparr> :: unit Config) =
    (socket_calls (transport_config LcmUrl_default (Config_default :: unit Config)),
     Inr \<lparr>t_transport = \<lparr>multicast_addr = SocketAddrV4 (Ipv4Addr 239 255 76 67) 7667,
         fragment_mtu = 1400, sequence_counter = 0\<rparr>,
       t_config = Config_default\<lparr>network_interface := Some ''eth0''\<rparr>, t_sent_sequences = {}\<rparr>)"
proof -
  have "fst (run True (\<lambda>_ _. None :: nat option) (Config_default\<lparr>network_interface := Some ''eth0''\<rparr> :: unit Config))
      = fst (run True (\<lambda>_ _. None :: nat option)
          (Config_default\<lparr>network_interface := Some ''eth0'', network_interface := None\<rparr> :: unit Config))"
    using invalid_interface_ignored [of "Config_default\<lparr>network_interface := Some ''eth0''\<rparr> :: unit Config"
        "''eth0''" True "\<lambda>_ _. None :: nat option"]
    by (simp add: parse_ipv4_def read_octet_def is_digit_def)
  moreover have "lcm_url (Config_default :: unit Config) = DEFAULT_LCM_URL"
    "network_interface (Config_default :: unit Config) = None" by (simp_all add: Config_default_def)
  moreover have "Config_default\<lparr>network_interface := None\<rparr> = (Config_default :: unit Config)"
    by (simp add: Config_default_def)
  ultimately show ?thesis
    by (simp add: run_def parse_default_url LcmTransport_new_def run_calls_all)
      (simp add: transport_config_def LcmTransportConfig_default_def DEFAULT_FRAGMENT_MTU_def
        LcmUrl_default_def)
qed

text \<open>Claim C28. The admin space answers with the version and the configuration under the plugin's
  status key, each exactly when its key intersects the query, in that order; the status key is
  restored between the two.\<close>

theorem adminspace_answers:
  assumes "valid_ke (status @ ''/version'')" and "valid_ke (status @ ''/config'')"
  shows "adminspace_getter valid_ke intersects lock_ok version pattern config ke status = Ret
    ((if intersects (status @ ''/version'') ke then [(status @ ''/version'', JString version)] else []) @
     (if intersects (status @ ''/config'') ke \<and> lock_ok
      then [(status @ ''/config'', serialize_config pattern config)] else []))"
proof -
  let ?v = "if intersects (status @ ''/version'') ke then [(status @ ''/version'', JString version)] else []"
  have 1: "with_extended_string status [''/version''] (\<lambda>key.
      if \<not> valid_ke key then Panic
      else if intersects key ke then Ret (key, [] @ [(key, JString version)])
      else Ret (key, [])) = Ret (status, ?v)"
    using assms(1) by (intro with_extended_string_restores) simp
  have 2: "with_extended_string status [''/config''] (\<lambda>key.
      if \<not> valid_ke key then Panic
      else if intersects key ke \<and> lock_ok
      then Ret (key, ?v @ [(key, serialize_config pattern config)])
      else Ret (key, ?v)) = Ret (status, ?v @ (if intersects (status @ ''/config'') ke \<and> lock_ok
        then [(status @ ''/config'', serialize_config pattern config)] else []))"
    using assms(2) by (intro with_extended_string_restores) simp
  show ?thesis unfolding adminspace_getter_def Let_def 1 by (simp only: bind.bind_lunit prod.case 2)
qed

theorem adminspace_answers_witness:
  "adminspace_getter (\<lambda>k. k \<noteq> []) (\<lambda>k q. k = q) True ''v0.1'' id (Config_default :: string Config)
      ''@/lcm/version'' ''@/lcm'' = Ret [(''@/lcm/version'', JString ''v0.1'')]"
  using adminspace_answers [of "\<lambda>k. k \<noteq> []" "''@/lcm''" "\<lambda>k q. k = q" True "''v0.1''" id
      "Config_default :: string Config" "''@/lcm/version''"] by simp

end
