(* ===== verification/Cli.thy ===== *)
theory Cli
  imports Rust_Str "HOL-Library.Sublist"
begin

text \<open>
  The command line of the standalone bridge, \<open>zenoh-bridge-lcm/src/main.rs\<close>: \<open>parse_args\<close> turns
  the options into changes of a zenoh configuration. clap and the configuration are outside: the
  options are what clap returned, a configuration is a value of type \<open>'c\<close>, and \<open>apply_call\<close> says
  what a change makes of it, or that it is refused, in which case the code panics (\<open>unwrap\<close>).
\<close>

section \<open>Options\<close>

text \<open>An option that was given on the command line is \<open>Some\<close> of its value; \<open>--listen\<close> and
  \<open>--connect\<close> may be repeated. The default of \<open>--mode\<close> does not count as given.\<close>

record Args =
  arg_id :: "string option"
  arg_mode :: "string option"
  arg_config :: "string option"
  arg_listen :: "string list option"
  arg_connect :: "string list option"
  arg_no_multicast_scouting :: bool
  arg_rest_http_port :: "string option"
  arg_lcm_url :: "string option"
  arg_key_prefix :: "string option"
  arg_allow :: "string option"
  arg_deny :: "string option"
  arg_network_interface :: "string option"
  arg_max_message_size :: "string option"

section \<open>JSON strings\<close>

text \<open>\<open>serde_json::to_string\<close> of a string: quoted, with the escapes of serde_json.\<close>

definition hex_digit :: "nat \<Rightarrow> char" where
  "hex_digit n = char_of (if n < 10 then 48 + n else 87 + n)"

definition escape_char :: "char \<Rightarrow> string" where
  "escape_char c =
     (if c = CHR 0x22 then [CHR 0x5C, CHR 0x22]
      else if c = CHR 0x5C then [CHR 0x5C, CHR 0x5C]
      else if c = CHR 0x08 then [CHR 0x5C, CHR ''b'']
      else if c = CHR 0x09 then [CHR 0x5C, CHR ''t'']
      else if c = CHR 0x0A then [CHR 0x5C, CHR ''n'']
      else if c = CHR 0x0C then [CHR 0x5C, CHR ''f'']
      else if c = CHR 0x0D then [CHR 0x5C, CHR ''r'']
      else if (of_char c :: nat) < 32
      then [CHR 0x5C, CHR ''u'', CHR ''0'', CHR ''0'', hex_digit (of_char c div 16), hex_digit (of_char c mod 16)]
      else [c])"

definition json_string :: "string \<Rightarrow> string" where
  "json_string s = CHR 0x22 # concat (map escape_char s) @ [CHR 0x22]"

section \<open>Changes of the configuration\<close>

datatype ConfigCall =
    InsertJson5 string string
  | SetId string
  | SetMode string
  | SetConnectEndpoints "string list"
  | SetListenEndpoints "string list"
  | SetMulticastScouting bool
  | SetTimestampingUnique bool
  | SetAdminspace bool
  | SetPluginsLoading bool

text \<open>\<open>insert_json5!(config, args, key, if name,)\<close>\<close>

definition insert_json5_if :: "string \<Rightarrow> string option \<Rightarrow> ConfigCall list" where
  "insert_json5_if key v = (case v of None \<Rightarrow> [] | Some s \<Rightarrow> [InsertJson5 key (json_string s)])"

definition opt_call :: "('a \<Rightarrow> ConfigCall) \<Rightarrow> 'a option \<Rightarrow> ConfigCall list" where
  "opt_call f v = (case v of None \<Rightarrow> [] | Some x \<Rightarrow> [f x])"

definition config_calls :: "bool \<Rightarrow> Args \<Rightarrow> ConfigCall list" where
  "config_calls has_lcm args =
     (if has_lcm then [] else [InsertJson5 ''plugins/lcm'' ''{}''])
     @ opt_call SetId (arg_id args)
     @ opt_call SetMode (arg_mode args)
     @ opt_call SetConnectEndpoints (arg_connect args)
     @ opt_call SetListenEndpoints (arg_listen args)
     @ (if arg_no_multicast_scouting args then [SetMulticastScouting False] else [])
     @ opt_call (\<lambda>port. InsertJson5 ''plugins/rest/http_port'' (CHR 0x22 # port @ [CHR 0x22]))
         (arg_rest_http_port args)
     @ [SetTimestampingUnique True, SetAdminspace True, SetPluginsLoading True]
     @ insert_json5_if ''plugins/lcm/lcm_url'' (arg_lcm_url args)
     @ insert_json5_if ''plugins/lcm/key_prefix'' (arg_key_prefix args)
     @ insert_json5_if ''plugins/lcm/allow'' (arg_allow args)
     @ insert_json5_if ''plugins/lcm/deny'' (arg_deny args)
     @ insert_json5_if ''plugins/lcm/network_interface'' (arg_network_interface args)
     @ opt_call (InsertJson5 ''plugins/lcm/max_message_size'') (arg_max_message_size args)"

fun apply_calls :: "('c \<Rightarrow> ConfigCall \<Rightarrow> 'c may_panic) \<Rightarrow> 'c \<Rightarrow> ConfigCall list \<Rightarrow> 'c may_panic" where
  "apply_calls apply_call config [] = Ret config"
| "apply_calls apply_call config (c # cs) = do {
     config \<leftarrow> apply_call config c;
     apply_calls apply_call config cs }"

definition parse_args ::
  "(string \<Rightarrow> 'c may_panic) \<Rightarrow> 'c \<Rightarrow> ('c \<Rightarrow> bool) \<Rightarrow> ('c \<Rightarrow> ConfigCall \<Rightarrow> 'c may_panic) \<Rightarrow> Args \<Rightarrow> 'c may_panic"
where
  "parse_args from_file default_config has_lcm apply_call args = do {
     config \<leftarrow> (case arg_config args of
        Some conf_file \<Rightarrow> from_file conf_file
      | None \<Rightarrow> Ret default_config);
     apply_calls apply_call config (config_calls (has_lcm config) args) }"

section \<open>The program\<close>

text \<open>How \<open>main\<close> ends: it exits with a status after printing the error of the runtime, or it serves
  for ever. A static plugin is declared by its name and whether it is required.\<close>

datatype ('e, 'rt) main_outcome =
    BuildFailedExit int 'e
  | StartFailedExit int 'e
  | Serving 'rt

definition static_plugins :: "bool \<Rightarrow> (string \<times> bool) list" where
  "static_plugins has_rest = (if has_rest then [(''rest'', True)] else []) @ [(''lcm'', True)]"

text \<open>\<open>has_plugin config name\<close> is \<open>config.plugin(name).is_some()\<close>; \<open>build\<close> and \<open>start_runtime\<close> are the
  zenoh runtime.\<close>

definition main ::
  "(string \<Rightarrow> 'c may_panic) \<Rightarrow> 'c \<Rightarrow> ('c \<Rightarrow> string \<Rightarrow> bool) \<Rightarrow> ('c \<Rightarrow> ConfigCall \<Rightarrow> 'c may_panic)
     \<Rightarrow> ('c \<Rightarrow> (string \<times> bool) list \<Rightarrow> 'e + 'rt) \<Rightarrow> ('rt \<Rightarrow> 'e + 'rt) \<Rightarrow> Args
     \<Rightarrow> ('e, 'rt) main_outcome may_panic" where
  "main from_file default_config has_plugin apply_call build start_runtime args = do {
     config \<leftarrow> parse_args from_file default_config (\<lambda>c. has_plugin c ''lcm'') apply_call args;
     let plugins_mgr = static_plugins (has_plugin config ''rest'');
     (case build config plugins_mgr of
        Inl e \<Rightarrow> Ret (BuildFailedExit (-1) e)
      | Inr runtime \<Rightarrow>
          (case start_runtime runtime of
             Inl e \<Rightarrow> Ret (StartFailedExit (-1) e)
           | Inr runtime \<Rightarrow> Ret (Serving runtime))) }"

section \<open>Lemmas\<close>

text \<open>The bridge serves only with a runtime that was built from the configuration with the LCM
  plugin among its required plugins, and that started.\<close>

lemma main_serves:
  assumes "main from_file default_config has_plugin apply_call build start_runtime args = Ret (Serving rt)"
  shows "\<exists>config built. parse_args from_file default_config (\<lambda>c. has_plugin c ''lcm'') apply_call args = Ret config \<and>
    build config (static_plugins (has_plugin config ''rest'')) = Inr built \<and> start_runtime built = Inr rt \<and>
    (''lcm'', True) \<in> set (static_plugins (has_plugin config ''rest''))"
proof -
  from assms obtain config where config:
      "parse_args from_file default_config (\<lambda>c. has_plugin c ''lcm'') apply_call args = Ret config"
    by (auto simp: main_def bind_eq_Some_conv)
  with assms obtain built where "build config (static_plugins (has_plugin config ''rest'')) = Inr built"
    by (auto simp: main_def split: sum.splits)
  moreover from this config assms have "start_runtime built = Inr rt"
    by (auto simp: main_def split: sum.splits)
  moreover have "(''lcm'', True) \<in> set (static_plugins b)" for b by (simp add: static_plugins_def)
  ultimately show ?thesis using config by blast
qed

text \<open>A change that the configuration refuses ends the program with a panic, before any runtime is
  built.\<close>

lemma apply_calls_refused:
  "apply_calls apply_call config (cs @ c # cs') = Panic"
  if "apply_calls apply_call config cs = Ret config'" and "apply_call config' c = Panic"
  using that by (induction cs arbitrary: config) (auto simp: bind_eq_Some_conv)

lemma main_panics:
  assumes "arg_config args = None"
    and "config_calls (has_plugin default_config ''lcm'') args = cs @ c # cs'"
    and "apply_calls apply_call default_config cs = Ret config" and "apply_call config c = Panic"
  shows "main from_file default_config has_plugin apply_call build start_runtime args = Panic"
  using assms apply_calls_refused [OF assms(3,4)] by (simp add: main_def parse_args_def)

text \<open>Reading a JSON string body: the inverse the escapes are made for.\<close>

definition hex_value :: "char \<Rightarrow> nat" where
  "hex_value c = (if is_digit c then of_char c - 48 else of_char c - 87)"

fun unescape :: "string \<Rightarrow> string option" where
  "unescape [] = Some []"
| "unescape (c # cs) =
     (if c = CHR 0x22 then None
      else if c \<noteq> CHR 0x5C then map_option (Cons c) (unescape cs)
      else (case cs of
              [] \<Rightarrow> None
            | e # r \<Rightarrow>
                if e = CHR 0x22 \<or> e = CHR 0x5C then map_option (Cons e) (unescape r)
                else if e = CHR ''b'' then map_option (Cons (CHR 0x08)) (unescape r)
                else if e = CHR ''t'' then map_option (Cons (CHR 0x09)) (unescape r)
                else if e = CHR ''n'' then map_option (Cons (CHR 0x0A)) (unescape r)
                else if e = CHR ''f'' then map_option (Cons (CHR 0x0C)) (unescape r)
                else if e = CHR ''r'' then map_option (Cons (CHR 0x0D)) (unescape r)
                else if e = CHR ''u'' then
                  (case r of
                     a # b # x # y # r' \<Rightarrow>
                       map_option (Cons (char_of (16 * hex_value x + hex_value y))) (unescape r')
                   | _ \<Rightarrow> None)
                else None))"

lemma hex_value_digit [simp]: "n < 16 \<Longrightarrow> hex_value (hex_digit n) = n"
  by (auto simp: hex_value_def hex_digit_def is_digit_def)

lemma unescape_escape_char: "unescape (escape_char c @ s) = map_option (Cons c) (unescape s)"
proof -
  have "(of_char c :: nat) div 16 < 16" "(of_char c :: nat) mod 16 < 16"
    "16 * ((of_char c :: nat) div 16) + of_char c mod 16 = of_char c"
    using nat_of_char_less_256 [of c] by (simp_all add: less_mult_imp_div_less)
  then show ?thesis by (auto simp: escape_char_def)
qed

lemma unescape_escaped: "unescape (concat (map escape_char s)) = Some s"
  by (induction s) (simp_all add: unescape_escape_char)

section \<open>What the configuration holds afterwards\<close>

text \<open>The path of the configuration that a change writes. Paths are apart when neither is the other or
  below it.\<close>

fun path_of :: "ConfigCall \<Rightarrow> string" where
  "path_of (InsertJson5 key v) = key"
| "path_of (SetId v) = ''id''"
| "path_of (SetMode v) = ''mode''"
| "path_of (SetConnectEndpoints v) = ''connect/endpoints''"
| "path_of (SetListenEndpoints v) = ''listen/endpoints''"
| "path_of (SetMulticastScouting v) = ''scouting/multicast/enabled''"
| "path_of (SetTimestampingUnique v) = ''timestamping/enabled''"
| "path_of (SetAdminspace v) = ''adminspace/enabled''"
| "path_of (SetPluginsLoading v) = ''plugins_loading/enabled''"

definition apart :: "string \<Rightarrow> string \<Rightarrow> bool" where
  "apart p q \<longleftrightarrow> \<not> prefix (p @ ''/'') (q @ ''/'') \<and> \<not> prefix (q @ ''/'') (p @ ''/'')"

text \<open>No change of the list touches the path; a change of the list is the last to touch its path.\<close>

definition spares :: "string \<Rightarrow> ConfigCall list \<Rightarrow> bool" where
  "spares p calls \<longleftrightarrow> list_all (\<lambda>c. apart (path_of c) p) calls"

definition settles :: "ConfigCall list \<Rightarrow> ConfigCall \<Rightarrow> bool" where
  "settles calls c \<longleftrightarrow> (\<exists>xs ys. calls = xs @ c # ys \<and> spares (path_of c) ys)"

lemma spares_append [simp]: "spares p (xs @ ys) \<longleftrightarrow> spares p xs \<and> spares p ys"
  by (simp add: spares_def)

lemma spares_simps [simp]:
  "spares p []" "spares p (c # cs) \<longleftrightarrow> apart (path_of c) p \<and> spares p cs"
  by (simp_all add: spares_def)

lemma spares_opt [simp]:
  "spares p (opt_call f v) \<longleftrightarrow> (\<forall>x. v = Some x \<longrightarrow> apart (path_of (f x)) p)"
  "spares p (insert_json5_if key w) \<longleftrightarrow> (\<forall>x. w = Some x \<longrightarrow> apart key p)"
  by (simp_all add: opt_call_def insert_json5_if_def split: option.split)

lemma settles_Nil [simp]: "\<not> settles [] c"
  by (simp add: settles_def)

lemma settles_Cons [simp]: "settles (x # ys) c \<longleftrightarrow> settles ys c \<or> x = c \<and> spares (path_of c) ys"
  by (auto simp: settles_def Cons_eq_append_conv)

lemma settles_append [simp]: "settles (xs @ ys) c \<longleftrightarrow> settles ys c \<or> settles xs c \<and> spares (path_of c) ys"
  by (induction xs) auto

lemma settles_opt [simp]:
  "settles (opt_call f v) c \<longleftrightarrow> (\<exists>x. v = Some x \<and> f x = c)"
  "settles (insert_json5_if key w) c \<longleftrightarrow> (\<exists>x. w = Some x \<and> InsertJson5 key (json_string x) = c)"
  by (simp_all add: opt_call_def insert_json5_if_def split: option.split)

text \<open>Two laws of the configuration: it holds what was written last to a path, and a change leaves what is
  held at paths apart from its own.\<close>

definition holds_written :: "('c \<Rightarrow> ConfigCall \<Rightarrow> 'c may_panic) \<Rightarrow> ('c \<Rightarrow> ConfigCall \<Rightarrow> bool) \<Rightarrow> bool" where
  "holds_written apply_call holds \<longleftrightarrow> (\<forall>c call c'. apply_call c call = Ret c' \<longrightarrow> holds c' call)"

definition leaves_apart :: "('c \<Rightarrow> ConfigCall \<Rightarrow> 'c may_panic) \<Rightarrow> ('c \<Rightarrow> ConfigCall \<Rightarrow> bool) \<Rightarrow> bool" where
  "leaves_apart apply_call holds \<longleftrightarrow> (\<forall>c call c' other. apply_call c call = Ret c' \<longrightarrow>
     apart (path_of call) (path_of other) \<longrightarrow> holds c' other = holds c other)"

lemma apply_calls_append:
  "apply_calls apply_call c (xs @ ys) = Option.bind (apply_calls apply_call c xs) (\<lambda>c. apply_calls apply_call c ys)"
  by (induction xs arbitrary: c) simp_all

lemma apply_calls_spared:
  assumes "leaves_apart apply_call holds"
  shows "apply_calls apply_call c calls = Ret c' \<Longrightarrow> spares (path_of other) calls \<Longrightarrow> holds c' other = holds c other"
proof (induction calls arbitrary: c)
  case (Cons call calls)
  then obtain c1 where c1: "apply_call c call = Ret c1" "apply_calls apply_call c1 calls = Ret c'"
    by (auto simp: bind_eq_Some_conv)
  with Cons.IH [OF c1(2)] Cons.prems(2) assms show ?case by (auto simp: leaves_apart_def)
qed simp

lemma apply_calls_settled:
  assumes "holds_written apply_call holds" and "leaves_apart apply_call holds"
    and "apply_calls apply_call c calls = Ret c'" and "settles calls call"
  shows "holds c' call"
proof -
  obtain xs ys where calls: "calls = xs @ call # ys" "spares (path_of call) ys"
    using assms(4) by (auto simp: settles_def)
  with assms(3) obtain c1 c2 where c2: "apply_call c1 call = Ret c2" "apply_calls apply_call c2 ys = Ret c'"
    unfolding calls(1) apply_calls_append by (auto simp: bind_eq_Some_conv)
  have "holds c2 call" using assms(1) c2(1) unfolding holds_written_def by blast
  with apply_calls_spared [OF assms(2) c2(2) calls(2)] show ?thesis by simp
qed

lemma apply_calls_panics:
  "apply_calls apply_call c calls = Panic \<Longrightarrow> \<exists>c call. apply_call c call = Panic"
  by (induction calls arbitrary: c) (auto simp: bind_eq_None_conv)

text \<open>Each option that is given is the last to touch its path, so the empty plugin comes before all of
  them; and the paths that the list touches.\<close>

lemma config_calls_settle:
  "arg_id args = Some s \<Longrightarrow> settles (config_calls has_lcm args) (SetId s)"
  "arg_mode args = Some s \<Longrightarrow> settles (config_calls has_lcm args) (SetMode s)"
  "arg_connect args = Some es \<Longrightarrow> settles (config_calls has_lcm args) (SetConnectEndpoints es)"
  "arg_listen args = Some es \<Longrightarrow> settles (config_calls has_lcm args) (SetListenEndpoints es)"
  "arg_rest_http_port args = Some s \<Longrightarrow> settles (config_calls has_lcm args) (InsertJson5 ''plugins/rest/http_port'' (CHR 0x22 # s @ [CHR 0x22]))"
  "arg_lcm_url args = Some s \<Longrightarrow> settles (config_calls has_lcm args) (InsertJson5 ''plugins/lcm/lcm_url'' (json_string s))"
  "arg_key_prefix args = Some s \<Longrightarrow> settles (config_calls has_lcm args) (InsertJson5 ''plugins/lcm/key_prefix'' (json_string s))"
  "arg_allow args = Some s \<Longrightarrow> settles (config_calls has_lcm args) (InsertJson5 ''plugins/lcm/allow'' (json_string s))"
  "arg_deny args = Some s \<Longrightarrow> settles (config_calls has_lcm args) (InsertJson5 ''plugins/lcm/deny'' (json_string s))"
  "arg_network_interface args = Some s \<Longrightarrow> settles (config_calls has_lcm args) (InsertJson5 ''plugins/lcm/network_interface'' (json_string s))"
  "arg_max_message_size args = Some s \<Longrightarrow> settles (config_calls has_lcm args) (InsertJson5 ''plugins/lcm/max_message_size'' s)"
  "arg_no_multicast_scouting args \<Longrightarrow> settles (config_calls has_lcm args) (SetMulticastScouting False)"
  "settles (config_calls has_lcm args) (SetTimestampingUnique True)"
  "settles (config_calls has_lcm args) (SetAdminspace True)"
  "settles (config_calls has_lcm args) (SetPluginsLoading True)"
  by (simp_all add: config_calls_def apart_def)

lemma config_calls_spare:
  assumes "\<forall>(p, written) \<in> set
           [(''id'', arg_id args \<noteq> None),
            (''mode'', arg_mode args \<noteq> None),
            (''connect/endpoints'', arg_connect args \<noteq> None),
            (''listen/endpoints'', arg_listen args \<noteq> None),
            (''scouting/multicast/enabled'', arg_no_multicast_scouting args),
            (''plugins/rest/http_port'', arg_rest_http_port args \<noteq> None),
            (''timestamping/enabled'', True),
            (''adminspace/enabled'', True),
            (''plugins_loading/enabled'', True),
            (''plugins/lcm'', \<not> has_lcm),
            (''plugins/lcm/lcm_url'', arg_lcm_url args \<noteq> None),
            (''plugins/lcm/key_prefix'', arg_key_prefix args \<noteq> None),
            (''plugins/lcm/allow'', arg_allow args \<noteq> None),
            (''plugins/lcm/deny'', arg_deny args \<noteq> None),
            (''plugins/lcm/network_interface'', arg_network_interface args \<noteq> None),
            (''plugins/lcm/max_message_size'', arg_max_message_size args \<noteq> None)]. written \<longrightarrow> apart p q"
  shows "spares q (config_calls has_lcm args)"
  using assms by (simp add: config_calls_def)

lemma parse_args_loads:
  assumes "parse_args from_file default_config has_lcm apply_call args = Ret config"
  obtains loaded where
    "case arg_config args of None \<Rightarrow> loaded = default_config | Some name \<Rightarrow> from_file name = Ret loaded"
    "apply_calls apply_call loaded (config_calls (has_lcm loaded) args) = Ret config"
  using assms by (auto simp: parse_args_def bind_eq_Some_conv split: option.splits)

section \<open>Properties\<close>

text \<open>Claim C29. The command line wins over the configuration file, and nothing else changes. Assumed of
  the configuration: it holds what was last written to a path, and a change leaves what is held at
  paths that are neither the changed one nor above or below it. Then \<open>parse_args\<close> panics only
  when the file does not load or a change is refused. Otherwise it starts from what the file holds
  (from the default without \<open>--config\<close>), and in the result each option that is given is
  held: identifier, mode, endpoints, scouting off, the port of the REST plugin, and for the LCM plugin URL,
  prefix, filters and interface as JSON strings and the message size as it is; timestamping, admin space and
  plugin loading are on; and every path apart from those of the options that are given, of these
  three, and of \<open>plugins/lcm\<close> if the file has no such plugin, holds what the file holds. So the
  empty \<open>plugins/lcm\<close> must be inserted before the options below it.\<close>

theorem options_override_file:
  assumes "holds_written apply_call holds" and "leaves_apart apply_call holds"
  shows "case parse_args from_file default_config has_lcm apply_call args of
      Panic \<Rightarrow> (\<exists>name. arg_config args = Some name \<and> from_file name = Panic) \<or>
        (\<exists>c call. apply_call c call = Panic)
    | Ret config \<Rightarrow> (\<exists>loaded.
        (case arg_config args of None \<Rightarrow> loaded = default_config | Some name \<Rightarrow> from_file name = Ret loaded) \<and>
        (\<forall>s. arg_id args = Some s \<longrightarrow> holds config (SetId s)) \<and>
        (\<forall>s. arg_mode args = Some s \<longrightarrow> holds config (SetMode s)) \<and>
        (\<forall>es. arg_connect args = Some es \<longrightarrow> holds config (SetConnectEndpoints es)) \<and>
        (\<forall>es. arg_listen args = Some es \<longrightarrow> holds config (SetListenEndpoints es)) \<and>
        (\<forall>s. arg_rest_http_port args = Some s \<longrightarrow>
          holds config (InsertJson5 ''plugins/rest/http_port'' (CHR 0x22 # s @ [CHR 0x22]))) \<and>
        (\<forall>s. arg_lcm_url args = Some s \<longrightarrow>
          holds config (InsertJson5 ''plugins/lcm/lcm_url'' (json_string s))) \<and>
        (\<forall>s. arg_key_prefix args = Some s \<longrightarrow>
          holds config (InsertJson5 ''plugins/lcm/key_prefix'' (json_string s))) \<and>
        (\<forall>s. arg_allow args = Some s \<longrightarrow>
          holds config (InsertJson5 ''plugins/lcm/allow'' (json_string s))) \<and>
        (\<forall>s. arg_deny args = Some s \<longrightarrow>
          holds config (InsertJson5 ''plugins/lcm/deny'' (json_string s))) \<and>
        (\<forall>s. arg_network_interface args = Some s \<longrightarrow>
          holds config (InsertJson5 ''plugins/lcm/network_interface'' (json_string s))) \<and>
        (\<forall>s. arg_max_message_size args = Some s \<longrightarrow>
          holds config (InsertJson5 ''plugins/lcm/max_message_size'' s)) \<and>
        (arg_no_multicast_scouting args \<longrightarrow> holds config (SetMulticastScouting False)) \<and>
        holds config (SetTimestampingUnique True) \<and> holds config (SetAdminspace True) \<and>
        holds config (SetPluginsLoading True) \<and>
        (\<forall>other. (\<forall>(p, written) \<in> set
           [(''id'', arg_id args \<noteq> None),
            (''mode'', arg_mode args \<noteq> None),
            (''connect/endpoints'', arg_connect args \<noteq> None),
            (''listen/endpoints'', arg_listen args \<noteq> None),
            (''scouting/multicast/enabled'', arg_no_multicast_scouting args),
            (''plugins/rest/http_port'', arg_rest_http_port args \<noteq> None),
            (''timestamping/enabled'', True),
            (''adminspace/enabled'', True),
            (''plugins_loading/enabled'', True),
            (''plugins/lcm'', \<not> has_lcm loaded),
            (''plugins/lcm/lcm_url'', arg_lcm_url args \<noteq> None),
            (''plugins/lcm/key_prefix'', arg_key_prefix args \<noteq> None),
            (''plugins/lcm/allow'', arg_allow args \<noteq> None),
            (''plugins/lcm/deny'', arg_deny args \<noteq> None),
            (''plugins/lcm/network_interface'', arg_network_interface args \<noteq> None),
            (''plugins/lcm/max_message_size'', arg_max_message_size args \<noteq> None)].
             written \<longrightarrow> apart p (path_of other)) \<longrightarrow> holds config other = holds loaded other))"
proof (cases "parse_args from_file default_config has_lcm apply_call args")
  case None
  then have "\<exists>name. arg_config args = Some name \<and> from_file name = Panic \<or> (\<exists>c call. apply_call c call = Panic)"
    by (auto simp: parse_args_def bind_eq_None_conv split: option.splits dest: apply_calls_panics)
  with None show ?thesis by auto
next
  case (Some config)
  then obtain loaded where loaded:
      "case arg_config args of None \<Rightarrow> loaded = default_config | Some name \<Rightarrow> from_file name = Ret loaded"
    and calls: "apply_calls apply_call loaded (config_calls (has_lcm loaded) args) = Ret config"
    by (rule parse_args_loads)
  note held = config_calls_settle [THEN apply_calls_settled [OF assms calls]]
  note kept = apply_calls_spared [OF assms(2) calls config_calls_spare]
  show ?thesis
    unfolding Some option.case by (intro exI [where x = loaded] conjI allI impI loaded held kept)
qed

text \<open>A configuration that maps paths to values, where writing a path drops what is above and below it; and
  a file with a URL and a prefix, read with a URL and an identifier on the command line.\<close>

fun value_of :: "ConfigCall \<Rightarrow> string list" where
  "value_of (InsertJson5 key v) = [v]"
| "value_of (SetId v) = [v]"
| "value_of (SetMode v) = [v]"
| "value_of (SetConnectEndpoints vs) = vs"
| "value_of (SetListenEndpoints vs) = vs"
| "value_of (SetMulticastScouting b) = [if b then ''true'' else ''false'']"
| "value_of (SetTimestampingUnique b) = [if b then ''true'' else ''false'']"
| "value_of (SetAdminspace b) = [if b then ''true'' else ''false'']"
| "value_of (SetPluginsLoading b) = [if b then ''true'' else ''false'']"

definition map_write :: "(string \<rightharpoonup> string list) \<Rightarrow> ConfigCall \<Rightarrow> (string \<rightharpoonup> string list) may_panic" where
  "map_write m c = Ret (\<lambda>p. if p = path_of c then Some (value_of c) else if apart (path_of c) p then m p else None)"

definition map_holds :: "(string \<rightharpoonup> string list) \<Rightarrow> ConfigCall \<Rightarrow> bool" where
  "map_holds m c \<longleftrightarrow> m (path_of c) = Some (value_of c)"

definition example_file :: "string \<rightharpoonup> string list" where
  "example_file = [''plugins/lcm/lcm_url'' \<mapsto> [''A''], ''plugins/lcm/key_prefix'' \<mapsto> [''P'']]"

definition example_args :: Args where
  "example_args = \<lparr>arg_id = Some ''0A'', arg_mode = None, arg_config = Some ''bridge.json5'', arg_listen = None,
     arg_connect = None, arg_no_multicast_scouting = False, arg_rest_http_port = None, arg_lcm_url = Some ''B'',
     arg_key_prefix = None, arg_allow = None, arg_deny = None, arg_network_interface = None,
     arg_max_message_size = None\<rparr>"

theorem options_override_file_witness:
  "\<exists>config. parse_args (\<lambda>_. Ret example_file) Map.empty (\<lambda>_. True) map_write example_args = Ret config \<and>
    config ''id'' = Some [''0A''] \<and> config ''plugins/lcm/lcm_url'' = Some [json_string ''B''] \<and>
    config ''plugins/lcm/key_prefix'' = Some [''P'']"
proof -
  have laws: "holds_written map_write map_holds" "leaves_apart map_write map_holds"
    by (auto simp: holds_written_def leaves_apart_def map_write_def map_holds_def apart_def)
  note override = options_override_file [OF laws, where from_file = "\<lambda>_. Ret example_file" and
      default_config = Map.empty and has_lcm = "\<lambda>_. True" and args = example_args]
  have "parse_args (\<lambda>_. Ret example_file) Map.empty (\<lambda>_. True) map_write example_args \<noteq> Panic"
  proof
    assume "parse_args (\<lambda>_. Ret example_file) Map.empty (\<lambda>_. True) map_write example_args = Panic"
    with override show False by (simp add: map_write_def)
  qed
  then obtain config where config:
      "parse_args (\<lambda>_. Ret example_file) Map.empty (\<lambda>_. True) map_write example_args = Ret config" by auto
  have "map_holds config (SetId ''0A'')" "map_holds config (InsertJson5 ''plugins/lcm/lcm_url'' (json_string ''B''))"
    "map_holds config (InsertJson5 ''plugins/lcm/key_prefix'' ''P'')"
    using override [unfolded config option.case]
    by (simp_all add: example_args_def apart_def) (simp add: map_holds_def example_file_def)
  with config show ?thesis by (simp add: map_holds_def)
qed

text \<open>An option value cannot break out of its JSON string: the quoted text is the value between
  two quotes, its body has no bare quote, and reading the body gives the value back.\<close>

lemma quoted_value_roundtrip:
  "\<exists>body. json_string s = CHR 0x22 # body @ [CHR 0x22] \<and> unescape body = Some s"
  by (intro exI [where x = "concat (map escape_char s)"]) (simp add: json_string_def unescape_escaped)

end
