(* ===== verification/Conformance_Protocol.thy ===== *)
theory Conformance_Protocol
  imports Protocol
begin

text \<open>
  The unit tests of \<open>lcm-transport/src/protocol.rs\<close>, transcribed one by one, and the proof that the
  model passes them. They are the authors' own examples of what the code does, so they check the
  translation, byte for byte, on the inputs they chose.
\<close>

section \<open>The tests\<close>

text \<open>The assertions on the packet that a test expects; any other answer fails the test.\<close>

definition expect_short :: "bytes \<Rightarrow> (ShortMessage \<Rightarrow> bool) \<Rightarrow> bool" where
  "expect_short buf check = (case parse_datagram buf of Some (Some (Short msg)) \<Rightarrow> check msg | _ \<Rightarrow> False)"

definition expect_fragment :: "bytes \<Rightarrow> (Fragment \<Rightarrow> bool) \<Rightarrow> bool" where
  "expect_fragment buf check = (case parse_datagram buf of Some (Some (Frag frag)) \<Rightarrow> check frag | _ \<Rightarrow> False)"

definition expect_none :: "bytes \<Rightarrow> bool" where
  "expect_none buf \<longleftrightarrow> parse_datagram buf = Ret None"

definition test_roundtrip_short_message :: bool where
  "test_roundtrip_short_message =
     expect_short (encode_short_message [] 42 ''TEST_CHANNEL'' [1, 2, 3, 4]) (\<lambda>msg.
       sm_sequence_number msg = 42 \<and> sm_channel msg = ''TEST_CHANNEL'' \<and> sm_data msg = [1, 2, 3, 4])"

definition test_roundtrip_fragment :: bool where
  "test_roundtrip_fragment =
     expect_fragment (encode_fragment [] 99 1000 0 0 3 (Some ''FRAG_CHAN'') [5, 6, 7]) (\<lambda>frag.
       frag_sequence_number frag = 99 \<and> frag_payload_size frag = 1000 \<and>
       frag_fragment_offset frag = 0 \<and> frag_fragment_number frag = 0 \<and> frag_n_fragments frag = 3 \<and>
       frag_channel frag = Some ''FRAG_CHAN'' \<and> frag_data frag = [5, 6, 7])"

definition test_subsequent_fragment_no_channel :: bool where
  "test_subsequent_fragment_no_channel =
     expect_fragment (encode_fragment [] 99 1000 500 1 3 None [8, 9]) (\<lambda>frag.
       frag_fragment_number frag = 1 \<and> frag_channel frag = None \<and>
       frag_fragment_offset frag = 500 \<and> frag_data frag = [8, 9])"

definition test_parse_too_small :: bool where
  "test_parse_too_small = expect_none [0, 1, 2]"

definition test_parse_empty :: bool where
  "test_parse_empty = expect_none []"

definition test_parse_unknown_magic :: bool where
  "test_parse_unknown_magic = expect_none [0, 0, 0, 0, 0, 0, 0, 0]"

definition test_short_message_no_null_terminator :: bool where
  "test_short_message_no_null_terminator =
     expect_none (u32_to_be_bytes MAGIC_SHORT @ u32_to_be_bytes 0 @ as_bytes ''CHAN_NO_NULL'')"

definition test_short_message_invalid_utf8_channel :: bool where
  "test_short_message_invalid_utf8_channel =
     expect_none (u32_to_be_bytes MAGIC_SHORT @ u32_to_be_bytes 0 @ [0xFF, 0xFE, 0x00])"

definition test_short_message_header_only :: bool where
  "test_short_message_header_only = expect_none (u32_to_be_bytes MAGIC_SHORT @ u32_to_be_bytes 0)"

definition test_short_message_empty_data :: bool where
  "test_short_message_empty_data =
     expect_short (encode_short_message [] 0 ''CH'' []) (\<lambda>msg. sm_channel msg = ''CH'' \<and> sm_data msg = [])"

definition test_fragment_header_truncated :: bool where
  "test_fragment_header_truncated = expect_none (u32_to_be_bytes MAGIC_FRAGMENT @ replicate 10 0)"

definition test_fragment_first_no_null_terminator :: bool where
  "test_fragment_first_no_null_terminator =
     expect_none (u32_to_be_bytes MAGIC_FRAGMENT @ u32_to_be_bytes 0 @ u32_to_be_bytes 100 @
       u32_to_be_bytes 0 @ u16_to_be_bytes 0 @ u16_to_be_bytes 2 @ as_bytes ''CHAN_NO_NULL'')"

definition test_fragment_first_invalid_utf8 :: bool where
  "test_fragment_first_invalid_utf8 =
     expect_none (u32_to_be_bytes MAGIC_FRAGMENT @ u32_to_be_bytes 0 @ u32_to_be_bytes 100 @
       u32_to_be_bytes 0 @ u16_to_be_bytes 0 @ u16_to_be_bytes 2 @ [0xFF, 0xFE, 0x00])"

definition test_fragment_non_first_no_channel :: bool where
  "test_fragment_non_first_no_channel =
     expect_fragment (encode_fragment [] 1 100 50 1 3 None [10, 20, 30]) (\<lambda>frag.
       frag_fragment_number frag = 1 \<and> frag_channel frag = None \<and> frag_data frag = [10, 20, 30])"

definition test_short_message_max_sequence_number :: bool where
  "test_short_message_max_sequence_number =
     expect_short (encode_short_message [] 4294967295 ''CH'' [1]) (\<lambda>msg. sm_sequence_number msg = 4294967295)"

definition test_fragment_max_sequence_number :: bool where
  "test_fragment_max_sequence_number =
     expect_fragment (encode_fragment [] 4294967295 10 0 0 1 (Some ''CH'') [1])
       (\<lambda>frag. frag_sequence_number frag = 4294967295)"

definition test_short_message_long_channel :: bool where
  "test_short_message_long_channel =
     (let long_channel = replicate 500 CHR ''A'' in
      expect_short (encode_short_message [] 0 long_channel [1, 2, 3]) (\<lambda>msg. sm_channel msg = long_channel))"

definition test_short_message_large_payload :: bool where
  "test_short_message_large_payload =
     (let payload = map (\<lambda>i. word_of_nat (i mod 256)) [0..<10000] in
      expect_short (encode_short_message [] 7 ''BIG'' payload)
        (\<lambda>msg. length (sm_data msg) = 10000 \<and> sm_data msg = payload))"

definition test_fragment_empty_data :: bool where
  "test_fragment_empty_data =
     expect_fragment (encode_fragment [] 1 10 5 1 2 None [])
       (\<lambda>frag. frag_data frag = [] \<and> frag_fragment_offset frag = 5)"

definition test_fragment_max_values :: bool where
  "test_fragment_max_values =
     expect_fragment (encode_fragment [] 4294967295 4294967295 4294967295 65535 65535 None [0xFF]) (\<lambda>frag.
       frag_sequence_number frag = 4294967295 \<and> frag_payload_size frag = 4294967295 \<and>
       frag_fragment_offset frag = 4294967295 \<and> frag_fragment_number frag = 65535 \<and>
       frag_n_fragments frag = 65535)"

definition test_short_magic_with_fragment_size :: bool where
  "test_short_magic_with_fragment_size = expect_none (u32_to_be_bytes MAGIC_SHORT)"

section \<open>The model passes them\<close>

lemma expect_short_encoded:
  "wf_channel channel \<Longrightarrow> expect_short (encode_short_message buf n channel data) check \<longleftrightarrow>
     check \<lparr>sm_sequence_number = n, sm_channel = channel, sm_data = data\<rparr>"
  using short_message_roundtrip by (simp add: expect_short_def)

lemma expect_fragment_encoded:
  assumes "case channel of None \<Rightarrow> i \<noteq> 0 | Some c \<Rightarrow> i = 0 \<and> wf_channel c"
  shows "expect_fragment (encode_fragment buf n ps off i k channel data) check \<longleftrightarrow>
    check \<lparr>frag_sequence_number = n, frag_payload_size = ps, frag_fragment_offset = off,
           frag_fragment_number = i, frag_n_fragments = k, frag_channel = channel, frag_data = data\<rparr>"
  by (simp add: expect_fragment_def parse_encode_fragment [OF assms])

text \<open>The malformed datagrams are refused because no packet has them as its encoding.\<close>

lemmas parse_eval = expect_none_def parse_datagram_def parse_short_message_def parse_fragment_def
  read_u32_def read_u16_def index_def u32_to_be_bytes_def u16_to_be_bytes_def u32_from_to
  MAGIC_SHORT_def MAGIC_FRAGMENT_def SHORT_HEADER_SIZE_def FRAGMENT_HEADER_SIZE_def
  slice_def slice_from_def slice_to_def from_utf8_def in_span_def cont_def second_ok_def as_bytes_def byte_of_char_def valid_utf8.simps
  u32_from_be_bytes_def u16_from_be_bytes_def

lemma wf_channel_replicate:
  assumes "byte_of_char c < 0x80" and "c \<noteq> CHR 0x00"
  shows "wf_channel (replicate n c)"
proof -
  from assms have "valid_utf8 (replicate n (byte_of_char c))"
    by (induction n) (simp_all add: valid_utf8.simps)
  with assms show ?thesis by (simp add: wf_channel_def valid_str_def as_bytes_def)
qed

lemma short_message_tests_pass:
  shows test_roundtrip_short_message and test_short_message_empty_data
    and test_short_message_max_sequence_number and test_short_message_large_payload
  by (simp_all add: test_roundtrip_short_message_def test_short_message_empty_data_def
      test_short_message_max_sequence_number_def test_short_message_large_payload_def
      expect_short_encoded channel_eval Let_def)

lemma long_channel_test_passes: test_short_message_long_channel
  by (simp add: test_short_message_long_channel_def Let_def expect_short_encoded
      wf_channel_replicate byte_of_char_def)

lemma fragment_tests_pass:
  shows test_roundtrip_fragment and test_subsequent_fragment_no_channel
    and test_fragment_non_first_no_channel and test_fragment_max_sequence_number
    and test_fragment_empty_data and test_fragment_max_values
  by (simp_all add: test_roundtrip_fragment_def test_subsequent_fragment_no_channel_def
      test_fragment_non_first_no_channel_def test_fragment_max_sequence_number_def
      test_fragment_empty_data_def test_fragment_max_values_def expect_fragment_encoded channel_eval)

lemma truncated_datagram_tests_pass:
  shows test_parse_too_small and test_parse_empty and test_parse_unknown_magic
    and test_short_message_header_only and test_fragment_header_truncated
    and test_short_magic_with_fragment_size
  by (simp_all add: test_parse_too_small_def test_parse_empty_def test_parse_unknown_magic_def
      test_short_message_header_only_def test_fragment_header_truncated_def
      test_short_magic_with_fragment_size_def parse_eval)

lemma malformed_channel_tests_pass:
  shows test_short_message_no_null_terminator and test_short_message_invalid_utf8_channel
    and test_fragment_first_no_null_terminator and test_fragment_first_invalid_utf8
  by (simp_all add: test_short_message_no_null_terminator_def
      test_short_message_invalid_utf8_channel_def test_fragment_first_no_null_terminator_def
      test_fragment_first_invalid_utf8_def parse_eval)

end
