(* ===== verification/Conformance_Reassembly.thy ===== *)
theory Conformance_Reassembly
  imports Reassembly
begin

text \<open>
  The unit tests of \<open>lcm-transport/src/fragment.rs\<close> and the proof that the model passes them. A test
  is a computation that panics where an assertion fails or an absent value is unwrapped, so it passes
  when it returns. The tests read the real clock inside \<open>process\<close>; here the reading of each call is an
  argument of the test, and the lemmas assume of it what the test relies on: it does not run
  backwards, the whole test takes no longer than the timeout, and a sleep takes at least its time.
\<close>

section \<open>The tests\<close>

definition SENDER_A :: SocketAddr where "SENDER_A = SocketAddrV4 (Ipv4Addr 192 168 1 10) 5000"
definition SENDER_B :: SocketAddr where "SENDER_B = SocketAddrV4 (Ipv4Addr 192 168 1 20) 5001"

definition make_fragment ::
  "u32 \<Rightarrow> u32 \<Rightarrow> u32 \<Rightarrow> u16 \<Rightarrow> u16 \<Rightarrow> string option \<Rightarrow> bytes \<Rightarrow> Fragment" where
  "make_fragment seq payload_size offset frag_num n_frags channel data =
     \<lparr>frag_sequence_number = seq, frag_payload_size = payload_size, frag_fragment_offset = offset,
      frag_fragment_number = frag_num, frag_n_fragments = n_frags, frag_channel = channel,
      frag_data = data\<rparr>"

definition from_millis :: "nat \<Rightarrow> Duration" where
  "from_millis n = n * 1000000"

definition test_reassemble_two_fragments :: "Instant \<Rightarrow> Instant \<Rightarrow> unit may_panic" where
  "test_reassemble_two_fragments t0 t1 = do {
     let r = FragmentReassembler_new (from_secs 1) (4 * 1024 * 1024);
     let data_a = [1, 2, 3, 4, 5];
     let data_b = [6, 7, 8, 9, 10];
     let frag0 = make_fragment 1 10 0 0 2 (Some ''CHAN'') data_a;
     (r, out) \<leftarrow> process r frag0 SENDER_A t0 t0;
     assert_that (out = None);
     let frag1 = make_fragment 1 10 5 1 2 None data_b;
     (r, out) \<leftarrow> process r frag1 SENDER_A t1 t1;
     msg \<leftarrow> out;
     assert_that (msg_channel msg = ''CHAN'');
     assert_that (msg_sequence_number msg = 1);
     assert_that (msg_data msg = [1, 2, 3, 4, 5, 6, 7, 8, 9, 10]) }"

definition test_duplicate_fragment_ignored :: "Instant \<Rightarrow> Instant \<Rightarrow> unit may_panic" where
  "test_duplicate_fragment_ignored t0 t1 = do {
     let r = FragmentReassembler_new (from_secs 1) (4 * 1024 * 1024);
     let frag0 = make_fragment 1 6 0 0 2 (Some ''CH'') [1, 2, 3];
     (r, out) \<leftarrow> process r frag0 SENDER_A t0 t0;
     assert_that (out = None);
     (r, out) \<leftarrow> process r frag0 SENDER_A t1 t1;
     assert_that (out = None) }"

definition test_oversized_message_rejected :: "Instant \<Rightarrow> unit may_panic" where
  "test_oversized_message_rejected t0 = do {
     let r = FragmentReassembler_new (from_secs 1) 10;
     let frag0 = make_fragment 1 100 0 0 2 (Some ''BIG'') (replicate 5 1);
     (r, out) \<leftarrow> process r frag0 SENDER_A t0 t0;
     assert_that (out = None);
     assert_that (dom (pending r) = {}) }"

definition test_expire_stale_fragments :: "Instant \<Rightarrow> Instant \<Rightarrow> unit may_panic" where
  "test_expire_stale_fragments t0 t1 = do {
     let r = FragmentReassembler_new (from_millis 50) (4 * 1024 * 1024);
     let frag0 = make_fragment 1 6 0 0 2 (Some ''TIMEOUT'') [1, 2, 3];
     (r, out) \<leftarrow> process r frag0 SENDER_A t0 t0;
     assert_that (out = None);
     assert_that (card (dom (pending r)) = 1);
     let frag_new = make_fragment 2 3 0 0 1 (Some ''NEW'') [9, 9, 9];
     (r, out) \<leftarrow> process r frag_new SENDER_A t1 t1;
     msg \<leftarrow> out;
     assert_that (msg_channel msg = ''NEW'');
     assert_that (dom (pending r) = {}) }"

definition test_expire_preserves_fresh_fragments :: "Instant \<Rightarrow> Instant \<Rightarrow> Instant \<Rightarrow> unit may_panic" where
  "test_expire_preserves_fresh_fragments t0 t1 t2 = do {
     let r = FragmentReassembler_new (from_millis 200) (4 * 1024 * 1024);
     let frag_a = make_fragment 1 6 0 0 2 (Some ''OLD'') [1, 2, 3];
     (r, out) \<leftarrow> process r frag_a SENDER_A t0 t0;
     assert_that (out = None);
     let frag_b = make_fragment 2 6 0 0 2 (Some ''FRESH'') [4, 5, 6];
     (r, out) \<leftarrow> process r frag_b SENDER_A t1 t1;
     assert_that (out = None);
     let frag_trigger = make_fragment 3 3 0 0 1 (Some ''X'') [0];
     (r, _) \<leftarrow> process r frag_trigger SENDER_B t2 t2;
     assert_that (card (dom (pending r)) = 1);
     assert_that (pending r (SENDER_A, 2) \<noteq> None) }"

definition test_inconsistent_metadata_dropped :: "Instant \<Rightarrow> Instant \<Rightarrow> Instant \<Rightarrow> unit may_panic" where
  "test_inconsistent_metadata_dropped t0 t1 t2 = do {
     let r = FragmentReassembler_new (from_secs 1) (4 * 1024 * 1024);
     let frag0 = make_fragment 1 100 0 0 4 (Some ''CH'') [1, 2, 3];
     (r, out) \<leftarrow> process r frag0 SENDER_A t0 t0;
     assert_that (out = None);
     let frag1_bad = make_fragment 1 200 3 1 4 None [4, 5, 6];
     (r, out) \<leftarrow> process r frag1_bad SENDER_A t1 t1;
     assert_that (out = None);
     let frag1_bad2 = make_fragment 1 100 3 1 8 None [4, 5, 6];
     (r, out) \<leftarrow> process r frag1_bad2 SENDER_A t2 t2;
     assert_that (out = None);
     fs \<leftarrow> pending r (SENDER_A, 1);
     assert_that (fragments_received fs = 1) }"

definition test_fragment_number_out_of_bounds :: "Instant \<Rightarrow> Instant \<Rightarrow> unit may_panic" where
  "test_fragment_number_out_of_bounds t0 t1 = do {
     let r = FragmentReassembler_new (from_secs 1) (4 * 1024 * 1024);
     let frag0 = make_fragment 1 6 0 0 2 (Some ''CH'') [1, 2, 3];
     (r, out) \<leftarrow> process r frag0 SENDER_A t0 t0;
     assert_that (out = None);
     let frag_oob = make_fragment 1 6 3 5 2 None [4, 5, 6];
     (r, out) \<leftarrow> process r frag_oob SENDER_A t1 t1;
     assert_that (out = None);
     fs \<leftarrow> pending r (SENDER_A, 1);
     assert_that (fragments_received fs = 1) }"

definition test_fragment_data_overflow :: "Instant \<Rightarrow> Instant \<Rightarrow> unit may_panic" where
  "test_fragment_data_overflow t0 t1 = do {
     let r = FragmentReassembler_new (from_secs 1) (4 * 1024 * 1024);
     let frag0 = make_fragment 1 6 0 0 2 (Some ''CH'') [1, 2, 3];
     (r, out) \<leftarrow> process r frag0 SENDER_A t0 t0;
     assert_that (out = None);
     let frag1_overflow = make_fragment 1 6 4 1 2 None [4, 5, 6, 7, 8];
     (r, out) \<leftarrow> process r frag1_overflow SENDER_A t1 t1;
     assert_that (out = None);
     fs \<leftarrow> pending r (SENDER_A, 1);
     assert_that (fragments_received fs = 1) }"

definition test_three_fragments_reassembly :: "Instant \<Rightarrow> Instant \<Rightarrow> Instant \<Rightarrow> unit may_panic" where
  "test_three_fragments_reassembly t0 t1 t2 = do {
     let r = FragmentReassembler_new (from_secs 1) (4 * 1024 * 1024);
     let frag0 = make_fragment 42 9 0 0 3 (Some ''TRI'') [1, 2, 3];
     let frag1 = make_fragment 42 9 3 1 3 None [4, 5, 6];
     let frag2 = make_fragment 42 9 6 2 3 None [7, 8, 9];
     (r, out) \<leftarrow> process r frag2 SENDER_A t0 t0;
     assert_that (out = None);
     (r, out) \<leftarrow> process r frag0 SENDER_A t1 t1;
     assert_that (out = None);
     (r, out) \<leftarrow> process r frag1 SENDER_A t2 t2;
     msg \<leftarrow> out;
     assert_that (msg_channel msg = ''TRI'');
     assert_that (msg_sequence_number msg = 42);
     assert_that (msg_data msg = [1, 2, 3, 4, 5, 6, 7, 8, 9]) }"

definition test_different_senders_same_seqno :: "Instant \<Rightarrow> Instant \<Rightarrow> Instant \<Rightarrow> Instant \<Rightarrow> unit may_panic" where
  "test_different_senders_same_seqno t0 t1 t2 t3 = do {
     let r = FragmentReassembler_new (from_secs 1) (4 * 1024 * 1024);
     let frag_a0 = make_fragment 1 6 0 0 2 (Some ''CH_A'') [1, 2, 3];
     let frag_b0 = make_fragment 1 6 0 0 2 (Some ''CH_B'') [10, 20, 30];
     let frag_a1 = make_fragment 1 6 3 1 2 None [4, 5, 6];
     let frag_b1 = make_fragment 1 6 3 1 2 None [40, 50, 60];
     (r, out) \<leftarrow> process r frag_a0 SENDER_A t0 t0;
     assert_that (out = None);
     (r, out) \<leftarrow> process r frag_b0 SENDER_B t1 t1;
     assert_that (out = None);
     (r, out_a) \<leftarrow> process r frag_a1 SENDER_A t2 t2;
     msg_a \<leftarrow> out_a;
     (r, out_b) \<leftarrow> process r frag_b1 SENDER_B t3 t3;
     msg_b \<leftarrow> out_b;
     assert_that (msg_channel msg_a = ''CH_A'');
     assert_that (msg_data msg_a = [1, 2, 3, 4, 5, 6]);
     assert_that (msg_channel msg_b = ''CH_B'');
     assert_that (msg_data msg_b = [10, 20, 30, 40, 50, 60]) }"

section \<open>The model passes them\<close>

text \<open>How the expiry acts on the maps that the calls build up.\<close>

lemma expire_stale_eval:
  "expire_stale \<lparr>pending = Map.empty, timeout = d, max_message_size = n\<rparr> now =
     \<lparr>pending = Map.empty, timeout = d, max_message_size = n\<rparr>"
  "expire_stale \<lparr>pending = m(key \<mapsto> fs), timeout = d, max_message_size = n\<rparr> now =
     (let r = expire_stale \<lparr>pending = m, timeout = d, max_message_size = n\<rparr> now in
      r\<lparr>pending := (pending r)(key := if duration_since now (created_at fs) > d then None else Some fs)\<rparr>)"
  "expire_stale \<lparr>pending = m(key := None), timeout = d, max_message_size = n\<rparr> now =
     (let r = expire_stale \<lparr>pending = m, timeout = d, max_message_size = n\<rparr> now in
      r\<lparr>pending := (pending r)(key := None)\<rparr>)"
  by (auto simp: expire_stale_def Let_def fun_eq_iff split: option.splits)

lemma no_entry_to_remove: "Map.empty(key := None) = Map.empty"
  by auto

lemmas reassembly_eval = no_entry_to_remove process_def make_fragment_def FragmentReassembler_new_def expire_stale_eval
  new_set_def store_channel_def duration_since_def copy_into_def index_def slice_def u16_add_def
  Let_def SENDER_A_def SENDER_B_def from_secs_def from_millis_def assert_that_def

text \<open>A test of the ordinary kind: its calls follow one another within the timeout.\<close>

definition within :: "Duration \<Rightarrow> Instant list \<Rightarrow> bool" where
  "within d ts \<longleftrightarrow> sorted ts \<and> (\<forall>t \<in> set ts. t \<le> hd ts + d)"

lemma reassemble_two_fragments_passes:
  "within (from_secs 1) [t0, t1] \<Longrightarrow> test_reassemble_two_fragments t0 t1 = Ret ()"
  by (auto simp: test_reassemble_two_fragments_def within_def reassembly_eval)

lemma duplicate_fragment_ignored_passes:
  "within (from_secs 1) [t0, t1] \<Longrightarrow> test_duplicate_fragment_ignored t0 t1 = Ret ()"
  by (auto simp: test_duplicate_fragment_ignored_def within_def reassembly_eval)

lemma inconsistent_metadata_dropped_passes:
  "within (from_secs 1) [t0, t1, t2] \<Longrightarrow> test_inconsistent_metadata_dropped t0 t1 t2 = Ret ()"
  by (auto simp: test_inconsistent_metadata_dropped_def within_def reassembly_eval)

lemma fragment_number_out_of_bounds_passes:
  "within (from_secs 1) [t0, t1] \<Longrightarrow> test_fragment_number_out_of_bounds t0 t1 = Ret ()"
  by (auto simp: test_fragment_number_out_of_bounds_def within_def reassembly_eval)

lemma fragment_data_overflow_passes:
  "within (from_secs 1) [t0, t1] \<Longrightarrow> test_fragment_data_overflow t0 t1 = Ret ()"
  by (auto simp: test_fragment_data_overflow_def within_def reassembly_eval)

lemma three_fragments_reassembly_passes:
  "within (from_secs 1) [t0, t1, t2] \<Longrightarrow> test_three_fragments_reassembly t0 t1 t2 = Ret ()"
  by (auto simp: test_three_fragments_reassembly_def within_def reassembly_eval)

lemma different_senders_same_seqno_passes:
  "within (from_secs 1) [t0, t1, t2, t3] \<Longrightarrow> test_different_senders_same_seqno t0 t1 t2 t3 = Ret ()"
  by (auto simp: test_different_senders_same_seqno_def within_def reassembly_eval)

lemma oversized_message_rejected_passes: "test_oversized_message_rejected t0 = Ret ()"
  by (simp add: test_oversized_message_rejected_def reassembly_eval)

lemma expire_stale_fragments_passes:
  "t0 + from_millis 80 \<le> t1 \<Longrightarrow> test_expire_stale_fragments t0 t1 = Ret ()"
  by (simp add: test_expire_stale_fragments_def reassembly_eval)

lemma expire_preserves_fresh_fragments_passes:
  assumes "t0 + from_millis 150 \<le> t1" and "t1 \<le> t0 + from_millis 200"
    and "t1 + from_millis 80 \<le> t2" and "t2 \<le> t1 + from_millis 200"
  shows "test_expire_preserves_fresh_fragments t0 t1 t2 = Ret ()"
  using assms by (auto simp: test_expire_preserves_fresh_fragments_def reassembly_eval)

end
