(* ===== verification/Conformance_Types.thy ===== *)
theory Conformance_Types
  imports Lcm_Types
begin

text \<open>
  The unit tests of \<open>lcm-transport/src/types.rs\<close>, on the URLs their authors chose, and the proof
  that the model passes them. A test passes when it returns.
\<close>

section \<open>The tests\<close>

definition test_parse_default_url :: "unit may_panic" where
  "test_parse_default_url = do {
     url \<leftarrow> unwrap_result (LcmUrl_parse ''udpm://239.255.76.67:7667'');
     assert_that (multicast_group url = Ipv4Addr 239 255 76 67);
     assert_that (port url = 7667);
     assert_that (ttl url = 0);
     assert_that (recv_buf_size url = None) }"

definition test_parse_url_with_params :: "unit may_panic" where
  "test_parse_url_with_params = do {
     url \<leftarrow> unwrap_result (LcmUrl_parse ''udpm://239.255.76.67:7667?ttl=1&recv_buf_size=2097152'');
     assert_that (ttl url = 1);
     assert_that (recv_buf_size url = Some 2097152) }"

definition test_parse_invalid_scheme :: "unit may_panic" where
  "test_parse_invalid_scheme = assert_that (is_err (LcmUrl_parse ''tcp://239.255.76.67:7667''))"

definition test_parse_empty_url :: "unit may_panic" where
  "test_parse_empty_url = assert_that (is_err (LcmUrl_parse ''''))"

definition test_parse_scheme_only :: "unit may_panic" where
  "test_parse_scheme_only = assert_that (is_err (LcmUrl_parse ''udpm://''))"

definition test_parse_missing_port :: "unit may_panic" where
  "test_parse_missing_port = assert_that (is_err (LcmUrl_parse ''udpm://239.255.76.67''))"

definition test_parse_invalid_ip :: "unit may_panic" where
  "test_parse_invalid_ip = assert_that (is_err (LcmUrl_parse ''udpm://999.999.999.999:7667''))"

definition test_parse_invalid_port :: "unit may_panic" where
  "test_parse_invalid_port = assert_that (is_err (LcmUrl_parse ''udpm://239.255.76.67:99999''))"

definition test_parse_non_numeric_port :: "unit may_panic" where
  "test_parse_non_numeric_port = assert_that (is_err (LcmUrl_parse ''udpm://239.255.76.67:abc''))"

definition test_parse_invalid_ttl :: "unit may_panic" where
  "test_parse_invalid_ttl = assert_that (is_err (LcmUrl_parse ''udpm://239.255.76.67:7667?ttl=not_a_number''))"

definition test_parse_invalid_recv_buf_size :: "unit may_panic" where
  "test_parse_invalid_recv_buf_size = assert_that (is_err (LcmUrl_parse ''udpm://239.255.76.67:7667?recv_buf_size=xyz''))"

definition test_parse_high_ttl :: "unit may_panic" where
  "test_parse_high_ttl = do {
     url \<leftarrow> unwrap_result (LcmUrl_parse ''udpm://239.255.76.67:7667?ttl=255'');
     assert_that (ttl url = 255) }"

definition test_parse_port_zero :: "unit may_panic" where
  "test_parse_port_zero = do {
     url \<leftarrow> unwrap_result (LcmUrl_parse ''udpm://239.255.76.67:0'');
     assert_that (port url = 0) }"

definition test_parse_whitespace_trimmed :: "unit may_panic" where
  "test_parse_whitespace_trimmed = do {
     url \<leftarrow> unwrap_result (LcmUrl_parse ''  udpm://239.255.76.67:7667  '');
     assert_that (port url = 7667) }"

definition test_parse_unknown_param_ignored :: "unit may_panic" where
  "test_parse_unknown_param_ignored = do {
     url \<leftarrow> unwrap_result (LcmUrl_parse ''udpm://239.255.76.67:7667?ttl=1&unknown=42'');
     assert_that (ttl url = 1) }"

definition test_parse_param_no_value :: "unit may_panic" where
  "test_parse_param_no_value = do {
     url \<leftarrow> unwrap_result (LcmUrl_parse ''udpm://239.255.76.67:7667?ttl'');
     assert_that (ttl url = 0) }"

definition test_parse_large_recv_buf_size :: "unit may_panic" where
  "test_parse_large_recv_buf_size = do {
     url \<leftarrow> unwrap_result (LcmUrl_parse ''udpm://239.255.76.67:7667?recv_buf_size=134217728'');
     assert_that (recv_buf_size url = Some 134217728) }"

definition test_default_url_values :: "unit may_panic" where
  "test_default_url_values = do {
     let url = LcmUrl_default;
     assert_that (multicast_group url = Ipv4Addr 239 255 76 67);
     assert_that (port url = 7667);
     assert_that (ttl url = 0);
     assert_that (recv_buf_size url = None) }"

section \<open>The model passes them\<close>

lemmas url_eval = LcmUrl_parse_def Let_def trim_def strip_any.simps white_space_def strip_prefix_def
  split_once_def rsplit_once_def parse_ipv4_def read_octet_def read_dot_def parse_uint_def
  is_digit_def digit_value_def assert_that_def

lemma accepted_url_tests_pass:
  shows "test_parse_default_url = Ret ()" and "test_parse_url_with_params = Ret ()"
    and "test_parse_high_ttl = Ret ()" and "test_parse_port_zero = Ret ()"
    and "test_parse_whitespace_trimmed = Ret ()" and "test_parse_unknown_param_ignored = Ret ()"
    and "test_parse_param_no_value = Ret ()" and "test_parse_large_recv_buf_size = Ret ()"
    and "test_default_url_values = Ret ()"
  by (simp_all add: test_parse_default_url_def test_parse_url_with_params_def
      test_parse_high_ttl_def test_parse_port_zero_def test_parse_whitespace_trimmed_def
      test_parse_unknown_param_ignored_def test_parse_param_no_value_def
      test_parse_large_recv_buf_size_def test_default_url_values_def LcmUrl_default_def url_eval)

lemma refused_url_tests_pass:
  shows "test_parse_invalid_scheme = Ret ()" and "test_parse_empty_url = Ret ()"
    and "test_parse_scheme_only = Ret ()" and "test_parse_missing_port = Ret ()"
    and "test_parse_invalid_ip = Ret ()" and "test_parse_invalid_port = Ret ()"
    and "test_parse_non_numeric_port = Ret ()" and "test_parse_invalid_ttl = Ret ()"
    and "test_parse_invalid_recv_buf_size = Ret ()"
  by (simp_all add: test_parse_invalid_scheme_def test_parse_empty_url_def
      test_parse_scheme_only_def test_parse_missing_port_def test_parse_invalid_ip_def
      test_parse_invalid_port_def test_parse_non_numeric_port_def test_parse_invalid_ttl_def
      test_parse_invalid_recv_buf_size_def url_eval)

end
