(* ===== verification/Conformance_Multicast.thy ===== *)
theory Conformance_Multicast
  imports In_Order
begin

text \<open>
  The integration tests of \<open>lcm-transport/tests/multicast.rs\<close> and the proof that the model passes
  them. They run over the loopback of the local machine; here no call of the operating system fails,
  and the datagrams that a transport sends are handed over in order to the receiver, from the address
  \<open>src\<close> at the time \<open>now\<close>. The task that receives in a test waits until they come, so it is run on
  them after the sends. A test passes when it returns.
\<close>

section \<open>The tests\<close>

definition test_config :: "u16 \<Rightarrow> LcmTransportConfig" where
  "test_config p = LcmTransportConfig_default
     \<lparr>tc_lcm_url := \<lparr>multicast_group = Ipv4Addr 239 255 76 67, port = p, ttl = 0, recv_buf_size = None\<rparr>,
      tc_network_interface := None\<rparr>"

definition test_config_with_mtu :: "u16 \<Rightarrow> usize \<Rightarrow> LcmTransportConfig" where
  "test_config_with_mtu p mtu = (test_config p)\<lparr>tc_fragment_mtu := mtu\<rparr>"

definition new_reassembler :: FragmentReassembler where
  "new_reassembler = FragmentReassembler_new (from_secs 2) (4 * 1024 * 1024)"

text \<open>The transport of a test, on an operating system whose calls succeed.\<close>

definition new_transport :: "LcmTransportConfig \<Rightarrow> LcmTransport may_panic" where
  "new_transport config = unwrap_result (snd (LcmTransport_new (\<lambda>_ _. None :: unit option) config))"

definition unwrap_received :: "'e recv_result \<Rightarrow> LcmMessage may_panic" where
  "unwrap_received result = (case result of Received msg \<Rightarrow> Ret msg | _ \<Rightarrow> Panic)"

text \<open>Sends in a row, each unwrapped: the sequence numbers and the datagrams.\<close>

definition send_each :: "LcmTransport \<Rightarrow> (string \<times> bytes) list \<Rightarrow> (u32 list \<times> bytes list) may_panic" where
  "send_each t msgs = do {
     ((t, net), results) \<leftarrow> run_steps (send_next (\<lambda>_ _. None :: unit option)) (t, \<lparr>attempts = 0, wire = []\<rparr>) msgs;
     seqs \<leftarrow> those (map unwrap_result results);
     Ret (seqs, map snd (wire net)) }"

definition recv_each :: "nat \<Rightarrow> unit incoming list \<Rightarrow> LcmMessage list may_panic" where
  "recv_each n events = do {
     (r, rest, results) \<leftarrow> recv_many n new_reassembler events;
     those (map unwrap_received results) }"

definition send_and_recv :: "SocketAddr \<Rightarrow> Instant \<Rightarrow> LcmTransport \<Rightarrow> string \<Rightarrow> bytes \<Rightarrow> LcmMessage may_panic" where
  "send_and_recv src now t channel data = do {
     (_, pkts) \<leftarrow> send_each t [(channel, data)];
     msgs \<leftarrow> recv_each 1 (hand_over src now pkts);
     Ret (hd msgs) }"

definition test_short_message_loopback :: "SocketAddr \<Rightarrow> Instant \<Rightarrow> u16 \<Rightarrow> unit may_panic" where
  "test_short_message_loopback src now p = do {
     t \<leftarrow> new_transport (test_config p);
     msg \<leftarrow> send_and_recv src now t ''TEST_CHAN'' (as_bytes ''hello'');
     assert_that (msg_channel msg = ''TEST_CHAN'');
     assert_that (msg_data msg = as_bytes ''hello'');
     assert_that (msg_sequence_number msg = 0) }"

definition test_empty_payload :: "SocketAddr \<Rightarrow> Instant \<Rightarrow> u16 \<Rightarrow> unit may_panic" where
  "test_empty_payload src now p = do {
     t \<leftarrow> new_transport (test_config p);
     msg \<leftarrow> send_and_recv src now t ''EMPTY'' [];
     assert_that (msg_channel msg = ''EMPTY'');
     assert_that (msg_data msg = []) }"

definition test_fragmented_message_loopback :: "SocketAddr \<Rightarrow> Instant \<Rightarrow> u16 \<Rightarrow> unit may_panic" where
  "test_fragmented_message_loopback src now p = do {
     t \<leftarrow> new_transport (test_config p);
     let payload = map (\<lambda>i. word_of_nat (i mod 256)) [0..<5000];
     msg \<leftarrow> send_and_recv src now t ''FRAG_TEST'' payload;
     assert_that (msg_channel msg = ''FRAG_TEST'');
     assert_that (msg_data msg = payload) }"

definition test_many_fragments :: "SocketAddr \<Rightarrow> Instant \<Rightarrow> u16 \<Rightarrow> unit may_panic" where
  "test_many_fragments src now p = do {
     t \<leftarrow> new_transport (test_config_with_mtu p 200);
     let payload = replicate 10000 0xAB;
     msg \<leftarrow> send_and_recv src now t ''MANY_FRAGS'' payload;
     assert_that (msg_channel msg = ''MANY_FRAGS'');
     assert_that (length (msg_data msg) = 10000);
     assert_that (msg_data msg = payload) }"

definition test_multiple_channels :: "SocketAddr \<Rightarrow> Instant \<Rightarrow> u16 \<Rightarrow> unit may_panic" where
  "test_multiple_channels src now p = do {
     t \<leftarrow> new_transport (test_config p);
     (_, pkts) \<leftarrow> send_each t [(''CHAN_A'', as_bytes ''aaa''), (''CHAN_B'', as_bytes ''bbb''),
       (''CHAN_C'', as_bytes ''ccc'')];
     msgs \<leftarrow> recv_each 3 (hand_over src now pkts);
     assert_that (length msgs = 3);
     assert_that (map msg_channel msgs = [''CHAN_A'', ''CHAN_B'', ''CHAN_C'']);
     assert_that (map msg_data msgs = [as_bytes ''aaa'', as_bytes ''bbb'', as_bytes ''ccc'']) }"

definition test_sequence_numbers_increment :: "SocketAddr \<Rightarrow> Instant \<Rightarrow> u16 \<Rightarrow> unit may_panic" where
  "test_sequence_numbers_increment src now p = do {
     t \<leftarrow> new_transport (test_config p);
     (send_seqs, pkts) \<leftarrow> send_each t (map (\<lambda>i. (''SEQ_TEST'', [i])) [0, 1, 2, 3, 4]);
     assert_that (send_seqs = [0, 1, 2, 3, 4]);
     msgs \<leftarrow> recv_each 5 (hand_over src now pkts);
     assert_that (map msg_sequence_number msgs = [0, 1, 2, 3, 4]);
     assert_that (map msg_data msgs = [[0], [1], [2], [3], [4]]) }"

text \<open>Two transports of one group: the second receives what the first sends.\<close>

definition test_two_transports_same_group :: "SocketAddr \<Rightarrow> Instant \<Rightarrow> u16 \<Rightarrow> unit may_panic" where
  "test_two_transports_same_group src now p = do {
     transport_a \<leftarrow> new_transport (test_config p);
     transport_b \<leftarrow> new_transport (test_config p);
     assert_that (multicast_addr transport_a = multicast_addr transport_b);
     (_, pkts) \<leftarrow> send_each transport_a [(''CROSS'', as_bytes ''from_a'')];
     msgs \<leftarrow> recv_each 1 (hand_over src now pkts);
     assert_that (msg_channel (hd msgs) = ''CROSS'');
     assert_that (msg_data (hd msgs) = as_bytes ''from_a'') }"

section \<open>The model passes them\<close>

lemma new_transport_ok:
  "new_transport config = Ret \<lparr>multicast_addr = SocketAddrV4 (multicast_group (tc_lcm_url config))
       (port (tc_lcm_url config)), fragment_mtu = tc_fragment_mtu config, sequence_counter = 0\<rparr>"
  by (simp add: new_transport_def LcmTransport_new_def run_calls_all)

lemma those_Some: "those (map Some xs) = Some xs"
  by (induction xs) simp_all

lemma send_each_ok:
  assumes "list_all (intact (fragment_mtu t)) msgs"
  shows "send_each t msgs = Ret (map msg_sequence_number (numbered (sequence_counter t) msgs),
    concat (stream (fragment_mtu t) (sequence_counter t) msgs))"
proof -
  obtain t' net' where "run_steps (send_next (\<lambda>_ _. None :: unit option)) (t, \<lparr>attempts = 0, wire = []\<rparr>) msgs =
      Ret ((t', net'), map Inr (map msg_sequence_number (numbered (sequence_counter t) msgs)))"
    "wire net' = map (Pair (multicast_addr t)) (concat (stream (fragment_mtu t) (sequence_counter t) msgs))"
    using send_stream_intact [OF assms, where 'e = unit and net = "\<lparr>attempts = 0, wire = []\<rparr>"] by auto
  then show ?thesis
    using those_Some [of "map msg_sequence_number (numbered (sequence_counter t) msgs)"]
    by (simp add: send_each_def comp_def)
qed

lemma recv_each_ok:
  assumes "list_all (intact mtu) msgs" and "list_all (\<lambda>(channel, data). length data \<le> 4194304) msgs"
    and "n = length msgs"
  shows "recv_each n (hand_over src now (concat (stream mtu seq msgs))) = Ret (numbered seq msgs)"
proof -
  have inv: "reassembler_inv (from_secs 2) 4194304 new_reassembler"
    using reassembler_ok_new [of "from_secs 2" 4194304] by (simp add: new_reassembler_def)
  have "\<forall>n. pending new_reassembler (src, n) = None"
    by (simp add: new_reassembler_def FragmentReassembler_new_def)
  from stream_received [OF assms(1,2) inv this arrive_stream [where now = now], of seq "[] :: unit incoming list"]
  show ?thesis
    using those_Some [of "numbered seq msgs"]
    by (auto simp: recv_each_def concat_hand_over assms(3) comp_def unwrap_received_def)
qed

lemma send_and_recv_ok:
  assumes "intact (fragment_mtu t) (channel, data)" and "length data \<le> 4194304"
  shows "send_and_recv src now t channel data =
    Ret \<lparr>msg_channel = channel, msg_sequence_number = sequence_counter t, msg_data = data\<rparr>"
  using assms send_each_ok [of t "[(channel, data)]"]
    recv_each_ok [of "fragment_mtu t" "[(channel, data)]" 1 src now "sequence_counter t"]
  by (simp add: send_and_recv_def)

lemmas transport_eval = new_transport_ok test_config_def test_config_with_mtu_def
  LcmTransportConfig_default_def DEFAULT_FRAGMENT_MTU_def assert_that_def

lemmas intact_eval = intact_def is_short_def fragmentable_def first_capacity_def next_capacity_def
  frag_count_def FRAGMENT_HEADER_SIZE_def MAX_DATAGRAM_SIZE_def channel_eval

lemma short_loopback_tests_pass:
  shows "test_short_message_loopback src now p = Ret ()" and "test_empty_payload src now p = Ret ()"
  by (simp_all add: test_short_message_loopback_def test_empty_payload_def transport_eval
      send_and_recv_ok intact_eval)

lemma fragmented_loopback_tests_pass:
  shows "test_fragmented_message_loopback src now p = Ret ()" and "test_many_fragments src now p = Ret ()"
  by (simp_all add: test_fragmented_message_loopback_def test_many_fragments_def transport_eval
      send_and_recv_ok intact_eval Let_def)

lemma stream_loopback_tests_pass:
  shows "test_multiple_channels src now p = Ret ()"
    and "test_sequence_numbers_increment src now p = Ret ()"
    and "test_two_transports_same_group src now p = Ret ()"
  by (simp_all add: test_multiple_channels_def test_sequence_numbers_increment_def
      test_two_transports_same_group_def transport_eval send_each_ok recv_each_ok intact_eval
      del: stream.simps)

end
