(* ===== verification/Conformance_Bridge.thy ===== *)
theory Conformance_Bridge
  imports Conformance_Multicast Lcm_To_Zenoh
begin

text \<open>
  The integration tests of \<open>zenoh-plugin-lcm/tests/bridge.rs\<close>, with the copies of the two tasks
  that they spawn, and the proof that they pass. A test has one Zenoh session: \<open>delivers loc expr ke\<close>
  says whether its subscriber on \<open>expr\<close> gets a put on \<open>ke\<close> with the destination \<open>loc\<close> of the same
  session. It is a parameter, as are the localities \<open>any\<close> and \<open>remote\<close>; that a put to \<open>any\<close>
  destination reaches a matching subscriber, and one to \<open>remote\<close> ones does not reach its own session,
  are hypotheses.
\<close>

section \<open>The tests\<close>

definition bridge_test_config :: "u16 \<Rightarrow> LcmTransportConfig" where
  "bridge_test_config p = LcmTransportConfig_default
     \<lparr>tc_lcm_url := \<lparr>multicast_group = Ipv4Addr 239 255 76 67, port = p, ttl = 0, recv_buf_size = None\<rparr>,
      tc_network_interface := None\<rparr>"

definition bridge_reassembler :: FragmentReassembler where
  "bridge_reassembler = FragmentReassembler_new (from_secs 1) (4 * 1024 * 1024)"

text \<open>The LCM to Zenoh half: loop prevention and the put.\<close>

definition copied_l2z :: "string \<Rightarrow> sent_sequences \<Rightarrow> LcmMessage \<Rightarrow> sent_sequences \<times> (KeyExpr \<times> bytes) option" where
  "copied_l2z bridge_prefix seqs msg =
     (let (seqs, removed) = take_sequence seqs (msg_sequence_number msg)
      in if removed then (seqs, None)
         else (seqs, Some (bridge_prefix @ ''/'' @ msg_channel msg, msg_data msg)))"

text \<open>The Zenoh to LCM half: the channel, the send and the recording.\<close>

definition copied_z2l ::
  "LcmTransport \<Rightarrow> string \<Rightarrow> sent_sequences \<Rightarrow> KeyExpr \<times> bytes \<Rightarrow> (sent_sequences \<times> bytes list) may_panic" where
  "copied_z2l bridge_t bridge_prefix seqs = (\<lambda>(ke, payload). do {
     let channel = (case strip_prefix (bridge_prefix @ ''/'') ke of Some channel \<Rightarrow> channel | None \<Rightarrow> ke);
     (t, net, result) \<leftarrow> send (\<lambda>_ _. None :: unit option) bridge_t \<lparr>attempts = 0, wire = []\<rparr> channel payload;
     (case result of
        Inr seq \<Rightarrow> Ret (insert seq seqs, map snd (wire net))
      | Inl e \<Rightarrow> Ret (seqs, map snd (wire net))) })"

definition recv_one :: "SocketAddr \<Rightarrow> Instant \<Rightarrow> bytes list \<Rightarrow> LcmMessage may_panic" where
  "recv_one src now pkts = do {
     (_, _, result) \<leftarrow> recv bridge_reassembler (hand_over src now pkts :: unit incoming list);
     unwrap_received result }"

definition test_lcm_to_zenoh_bridge ::
  "('l \<Rightarrow> KeyExpr \<Rightarrow> KeyExpr \<Rightarrow> bool) \<Rightarrow> 'l \<Rightarrow> SocketAddr \<Rightarrow> Instant \<Rightarrow> u16 \<Rightarrow> unit may_panic" where
  "test_lcm_to_zenoh_bridge delivers any src now p = do {
     let prefix = ''test_l2z'';
     bridge_transport \<leftarrow> new_transport (bridge_test_config p);
     app_transport \<leftarrow> new_transport (bridge_test_config p);
     (_, pkts) \<leftarrow> send_each app_transport [(''SENSOR_IMU'', as_bytes ''imu_data_123'')];
     msg \<leftarrow> recv_one src now pkts;
     (key_expr, payload) \<leftarrow> snd (copied_l2z prefix {} msg);
     assert_that (delivers any (prefix @ ''/**'') key_expr);
     assert_that (key_expr = prefix @ ''/SENSOR_IMU'');
     assert_that (payload = as_bytes ''imu_data_123'') }"

definition test_zenoh_to_lcm_bridge ::
  "('l \<Rightarrow> KeyExpr \<Rightarrow> KeyExpr \<Rightarrow> bool) \<Rightarrow> 'l \<Rightarrow> SocketAddr \<Rightarrow> Instant \<Rightarrow> u16 \<Rightarrow> unit may_panic" where
  "test_zenoh_to_lcm_bridge delivers any src now p = do {
     let prefix = ''test_z2l'';
     bridge_transport \<leftarrow> new_transport (bridge_test_config p);
     app_transport \<leftarrow> new_transport (bridge_test_config p);
     let ke = prefix @ ''/MOTOR_CMD'';
     assert_that (delivers any (prefix @ ''/**'') ke);
     (seqs, pkts) \<leftarrow> copied_z2l bridge_transport prefix {} (ke, as_bytes ''cmd_data_456'');
     msg \<leftarrow> recv_one src now pkts;
     assert_that (msg_channel msg = ''MOTOR_CMD'');
     assert_that (msg_data msg = as_bytes ''cmd_data_456'') }"

text \<open>The last test with the set of recorded numbers as a parameter: \<open>record\<close> gives it from the number
  that was sent. It panics when the subscriber gets a sample.\<close>

definition loop_prevention_run ::
  "(u32 \<Rightarrow> sent_sequences) \<Rightarrow> ('l \<Rightarrow> KeyExpr \<Rightarrow> KeyExpr \<Rightarrow> bool) \<Rightarrow> 'l \<Rightarrow> SocketAddr \<Rightarrow> Instant \<Rightarrow> u16
     \<Rightarrow> unit may_panic" where
  "loop_prevention_run record delivers remote src now p = do {
     let prefix = ''test_loop'';
     bridge_transport \<leftarrow> new_transport (bridge_test_config p);
     (seqs, pkts) \<leftarrow> send_each bridge_transport [(''LOOPBACK'', as_bytes ''should_not_bridge'')];
     msg \<leftarrow> recv_one src now pkts;
     (case snd (copied_l2z prefix (record (hd seqs)) msg) of
        None \<Rightarrow> Ret ()
      | Some (ke, payload) \<Rightarrow> if delivers remote (prefix @ ''/**'') ke then Panic else Ret ()) }"

definition test_loop_prevention ::
  "('l \<Rightarrow> KeyExpr \<Rightarrow> KeyExpr \<Rightarrow> bool) \<Rightarrow> 'l \<Rightarrow> SocketAddr \<Rightarrow> Instant \<Rightarrow> u16 \<Rightarrow> unit may_panic" where
  "test_loop_prevention = loop_prevention_run (\<lambda>seq. {seq})"

section \<open>The model passes them\<close>

lemma recv_one_ok:
  assumes "intact mtu (channel, data)" and "length data \<le> 4194304"
  shows "recv_one src now (datagrams mtu seq channel data) =
    Ret \<lparr>msg_channel = channel, msg_sequence_number = seq, msg_data = data\<rparr>"
proof -
  have inv: "reassembler_inv (from_secs 1) 4194304 bridge_reassembler"
    using reassembler_ok_new [of "from_secs 1" 4194304] by (simp add: bridge_reassembler_def)
  have "\<forall>n. pending bridge_reassembler (src, n) = None"
    by (simp add: bridge_reassembler_def FragmentReassembler_new_def)
  moreover have "arrive src (from_secs 1) (datagrams mtu seq channel data)
      (hand_over src now (datagrams mtu seq channel data) :: unit incoming list)"
    by (rule arrive_hand_over)
  ultimately show ?thesis
    using message_received [OF assms(1) inv assms(2), of src seq
        "hand_over src now (datagrams mtu seq channel data) :: unit incoming list" "[]"]
    by (auto simp: recv_one_def unwrap_received_def)
qed

lemmas bridge_test_eval = new_transport_ok bridge_test_config_def
  LcmTransportConfig_default_def DEFAULT_FRAGMENT_MTU_def assert_that_def Let_def send_each_ok intact_eval
  copied_l2z_def take_sequence_def

lemma lcm_to_zenoh_test_passes:
  assumes "delivers any ''test_l2z/**'' ''test_l2z/SENSOR_IMU''"
  shows "test_lcm_to_zenoh_bridge delivers any src now p = Ret ()"
  using assms by (simp add: test_lcm_to_zenoh_bridge_def bridge_test_eval recv_one_ok)

lemma zenoh_to_lcm_test_passes:
  assumes "delivers any ''test_z2l/**'' ''test_z2l/MOTOR_CMD''"
  shows "test_zenoh_to_lcm_bridge delivers any src now p = Ret ()"
proof -
  let ?t = "\<lparr>multicast_addr = SocketAddrV4 (Ipv4Addr 239 255 76 67) p, fragment_mtu = 1400, sequence_counter = 0\<rparr>"
  have intact: "intact (fragment_mtu ?t) (''MOTOR_CMD'', as_bytes ''cmd_data_456'')"
    by (simp add: intact_eval)
  show ?thesis
    using assms send_intact [OF intact, where 'e = unit and net = "\<lparr>attempts = 0, wire = []\<rparr>"]
    by (auto simp: test_zenoh_to_lcm_bridge_def copied_z2l_def new_transport_ok bridge_test_config_def strip_prefix_def
        LcmTransportConfig_default_def DEFAULT_FRAGMENT_MTU_def assert_that_def recv_one_ok intact_eval comp_def)
qed

text \<open>The third test passes whatever set of numbers is recorded, none for example: its subscriber is in
  the session that puts with the destination \<open>remote\<close>, so it would not get the message if loop
  prevention failed.\<close>

lemma loop_prevention_test_vacuous:
  assumes "\<And>expr ke. \<not> delivers remote expr ke"
  shows "loop_prevention_run record delivers remote src now p = Ret ()"
  using assms by (simp add: loop_prevention_run_def bridge_test_eval recv_one_ok split: option.split)

lemma loop_prevention_test_passes: "test_loop_prevention delivers remote src now p = Ret ()"
  by (simp add: test_loop_prevention_def loop_prevention_run_def bridge_test_eval recv_one_ok)

end
