(* ===== verification/Conformance_Plugin.thy ===== *)
theory Conformance_Plugin
  imports Config_Json Zenoh_To_Lcm
begin

text \<open>
  The unit tests of the plugin, \<open>mapping.rs\<close>, \<open>config.rs\<close> and \<open>zenoh_to_lcm.rs\<close> under
  \<open>zenoh-plugin-lcm/src\<close>, and the proof that the model passes them. A test passes when it returns.
  What the tests rely on in other crates is a hypothesis: which keys zenoh accepts, which patterns
  the regex crate compiles and what they match. The JSON texts of the configuration tests are given
  as the values that serde_json reads from them. Not transcribed is
  \<open>test_key_expr_prefix_only_rejected_by_zenoh\<close>, which only tests zenoh.
\<close>

section \<open>Tests of the key mapping\<close>

text \<open>\<open>try_into().unwrap()\<close> of a string into a key expression.\<close>

definition key_expr_of :: "(string \<Rightarrow> bool) \<Rightarrow> string \<Rightarrow> KeyExpr may_panic" where
  "key_expr_of valid_ke s = (if valid_ke s then Ret s else Panic)"

definition test_channel_to_key_expr :: "(string \<Rightarrow> bool) \<Rightarrow> unit may_panic" where
  "test_channel_to_key_expr valid_ke = do {
     ke \<leftarrow> unwrap_result (lcm_channel_to_key_expr valid_ke ''SENSOR_IMU'' ''lcm'');
     assert_that (ke = ''lcm/SENSOR_IMU'') }"

definition test_channel_to_key_expr_custom_prefix :: "(string \<Rightarrow> bool) \<Rightarrow> unit may_panic" where
  "test_channel_to_key_expr_custom_prefix valid_ke = do {
     ke \<leftarrow> unwrap_result (lcm_channel_to_key_expr valid_ke ''ROBOT_STATE'' ''robot/lcm'');
     assert_that (ke = ''robot/lcm/ROBOT_STATE'') }"

definition test_channel_with_slash :: "(string \<Rightarrow> bool) \<Rightarrow> unit may_panic" where
  "test_channel_with_slash valid_ke = do {
     ke \<leftarrow> unwrap_result (lcm_channel_to_key_expr valid_ke ''sensors/imu'' ''lcm'');
     assert_that (ke = ''lcm/sensors/imu'') }"

definition test_channel_with_wildcard_rejected :: "(string \<Rightarrow> bool) \<Rightarrow> unit may_panic" where
  "test_channel_with_wildcard_rejected valid_ke = assert_that (is_err (lcm_channel_to_key_expr valid_ke ''SENSOR_*'' ''lcm''))"

definition test_empty_channel_rejected :: "(string \<Rightarrow> bool) \<Rightarrow> unit may_panic" where
  "test_empty_channel_rejected valid_ke = assert_that (is_err (lcm_channel_to_key_expr valid_ke '''' ''lcm''))"

definition test_key_expr_to_channel :: "(string \<Rightarrow> bool) \<Rightarrow> unit may_panic" where
  "test_key_expr_to_channel valid_ke = do {
     ke \<leftarrow> key_expr_of valid_ke ''lcm/SENSOR_IMU'';
     channel \<leftarrow> unwrap_result (key_expr_to_lcm_channel ke ''lcm'');
     assert_that (channel = ''SENSOR_IMU'') }"

definition test_key_expr_to_channel_hierarchical :: "(string \<Rightarrow> bool) \<Rightarrow> unit may_panic" where
  "test_key_expr_to_channel_hierarchical valid_ke = do {
     ke \<leftarrow> key_expr_of valid_ke ''lcm/sensors/imu'';
     channel \<leftarrow> unwrap_result (key_expr_to_lcm_channel ke ''lcm'');
     assert_that (channel = ''sensors/imu'') }"

definition test_key_expr_wrong_prefix :: "(string \<Rightarrow> bool) \<Rightarrow> unit may_panic" where
  "test_key_expr_wrong_prefix valid_ke = do {
     ke \<leftarrow> key_expr_of valid_ke ''mqtt/SENSOR'';
     assert_that (is_err (key_expr_to_lcm_channel ke ''lcm'')) }"

definition test_channel_with_hash_rejected :: "(string \<Rightarrow> bool) \<Rightarrow> unit may_panic" where
  "test_channel_with_hash_rejected valid_ke = assert_that (is_err (lcm_channel_to_key_expr valid_ke ''SENSOR#1'' ''lcm''))"

definition test_channel_with_dollar_rejected :: "(string \<Rightarrow> bool) \<Rightarrow> unit may_panic" where
  "test_channel_with_dollar_rejected valid_ke = assert_that (is_err (lcm_channel_to_key_expr valid_ke ''$SENSOR'' ''lcm''))"

definition test_channel_with_all_reserved_rejected :: "(string \<Rightarrow> bool) \<Rightarrow> unit may_panic" where
  "test_channel_with_all_reserved_rejected valid_ke = assert_that (is_err (lcm_channel_to_key_expr valid_ke ''*#$'' ''lcm''))"

definition test_channel_numeric_only :: "(string \<Rightarrow> bool) \<Rightarrow> unit may_panic" where
  "test_channel_numeric_only valid_ke = do {
     ke \<leftarrow> unwrap_result (lcm_channel_to_key_expr valid_ke ''12345'' ''lcm'');
     assert_that (ke = ''lcm/12345'') }"

definition test_channel_single_char :: "(string \<Rightarrow> bool) \<Rightarrow> unit may_panic" where
  "test_channel_single_char valid_ke = do {
     ke \<leftarrow> unwrap_result (lcm_channel_to_key_expr valid_ke ''A'' ''lcm'');
     assert_that (ke = ''lcm/A'') }"

definition test_channel_deeply_hierarchical :: "(string \<Rightarrow> bool) \<Rightarrow> unit may_panic" where
  "test_channel_deeply_hierarchical valid_ke = do {
     ke \<leftarrow> unwrap_result (lcm_channel_to_key_expr valid_ke ''a/b/c/d/e'' ''lcm'');
     assert_that (ke = ''lcm/a/b/c/d/e'');
     channel \<leftarrow> unwrap_result (key_expr_to_lcm_channel ke ''lcm'');
     assert_that (channel = ''a/b/c/d/e'') }"

definition test_key_expr_to_channel_prefix_mismatch_partial :: "(string \<Rightarrow> bool) \<Rightarrow> unit may_panic" where
  "test_key_expr_to_channel_prefix_mismatch_partial valid_ke = do {
     ke \<leftarrow> key_expr_of valid_ke ''lcm_extra/SENSOR'';
     assert_that (is_err (key_expr_to_lcm_channel ke ''lcm'')) }"

section \<open>Tests of the configuration\<close>

text \<open>\<open>json[key]\<close> on an object; a missing key reads as null.\<close>

fun json_index :: "Json \<Rightarrow> string \<Rightarrow> Json" where
  "json_index (JObject obj) key = (case map_of obj key of None \<Rightarrow> JNull | Some j \<Rightarrow> j)"
| "json_index _ key = JNull"

definition test_default_config :: "(string \<Rightarrow> 're option) \<Rightarrow> unit may_panic" where
  "test_default_config compile = do {
     config \<leftarrow> deserialize_config compile (JObject []);
     assert_that (lcm_url config = DEFAULT_LCM_URL);
     assert_that (key_prefix config = DEFAULT_KEY_PREFIX);
     assert_that (allow config = None);
     assert_that (deny config = None);
     assert_that (network_interface config = None) }"

definition test_allow_deny :: "(string \<Rightarrow> 're option) \<Rightarrow> ('re \<Rightarrow> string \<Rightarrow> bool) \<Rightarrow> unit may_panic" where
  "test_allow_deny compile is_match = do {
     config \<leftarrow> deserialize_config compile (JObject [(''allow'', JString ''SENSOR_.*''), (''deny'', JString ''SENSOR_DEBUG'')]);
     assert_that (is_allowed is_match ''SENSOR_IMU'' config);
     assert_that (\<not> is_allowed is_match ''SENSOR_DEBUG'' config);
     assert_that (\<not> is_allowed is_match ''MOTOR_CMD'' config) }"

definition test_path_field :: "(string \<Rightarrow> 're option) \<Rightarrow> unit may_panic" where
  "test_path_field compile = do {
     config \<leftarrow> deserialize_config compile (JObject [(''__path__'', JString ''/example/path'')]);
     assert_that (path config \<noteq> None) }"

definition test_path_field_as_array :: "(string \<Rightarrow> 're option) \<Rightarrow> unit may_panic" where
  "test_path_field_as_array compile = do {
     config \<leftarrow> deserialize_config compile (JObject [(''__path__'', JArray [JString ''/a'', JString ''/b''])]);
     paths \<leftarrow> path config;
     assert_that (length paths = 2);
     p \<leftarrow> index paths 0;
     assert_that (p = ''/a'') }"

definition test_invalid_regex_rejected :: "(string \<Rightarrow> 're option) \<Rightarrow> unit may_panic" where
  "test_invalid_regex_rejected compile = assert_that (deserialize_config compile (JObject [(''allow'', JString ''[invalid'')]) = None)"

definition test_deny_only :: "(string \<Rightarrow> 're option) \<Rightarrow> ('re \<Rightarrow> string \<Rightarrow> bool) \<Rightarrow> unit may_panic" where
  "test_deny_only compile is_match = do {
     config \<leftarrow> deserialize_config compile (JObject [(''deny'', JString ''DEBUG_.*'')]);
     assert_that (is_allowed is_match ''SENSOR_IMU'' config);
     assert_that (\<not> is_allowed is_match ''DEBUG_TEMP'' config) }"

definition test_allow_only :: "(string \<Rightarrow> 're option) \<Rightarrow> ('re \<Rightarrow> string \<Rightarrow> bool) \<Rightarrow> unit may_panic" where
  "test_allow_only compile is_match = do {
     config \<leftarrow> deserialize_config compile (JObject [(''allow'', JString ''SENSOR_.*'')]);
     assert_that (is_allowed is_match ''SENSOR_IMU'' config);
     assert_that (\<not> is_allowed is_match ''MOTOR_CMD'' config) }"

definition test_neither_allow_nor_deny :: "(string \<Rightarrow> 're option) \<Rightarrow> ('re \<Rightarrow> string \<Rightarrow> bool) \<Rightarrow> unit may_panic" where
  "test_neither_allow_nor_deny compile is_match = do {
     config \<leftarrow> deserialize_config compile (JObject []);
     assert_that (is_allowed is_match ''ANYTHING'' config);
     assert_that (is_allowed is_match '''' config) }"

definition test_allow_and_deny_overlap :: "(string \<Rightarrow> 're option) \<Rightarrow> ('re \<Rightarrow> string \<Rightarrow> bool) \<Rightarrow> unit may_panic" where
  "test_allow_and_deny_overlap compile is_match = do {
     config \<leftarrow> deserialize_config compile (JObject [(''allow'', JString ''SENSOR_.*''), (''deny'', JString ''SENSOR_DEBUG.*'')]);
     assert_that (is_allowed is_match ''SENSOR_IMU'' config);
     assert_that (\<not> is_allowed is_match ''SENSOR_DEBUG_X'' config);
     assert_that (\<not> is_allowed is_match ''MOTOR_CMD'' config) }"

definition test_unknown_field_rejected :: "(string \<Rightarrow> 're option) \<Rightarrow> unit may_panic" where
  "test_unknown_field_rejected compile = assert_that (deserialize_config compile (JObject [(''unknown_field'', JBool True)]) = None)"

definition test_custom_thread_settings :: "(string \<Rightarrow> 're option) \<Rightarrow> unit may_panic" where
  "test_custom_thread_settings compile = do {
     config \<leftarrow> deserialize_config compile (JObject [(''work_thread_num'', JNumber (PosInt 4)), (''max_block_thread_num'', JNumber (PosInt 100))]);
     assert_that (work_thread_num config = 4);
     assert_that (max_block_thread_num config = 100) }"

definition test_config_serialization_roundtrip :: "(string \<Rightarrow> 're option) \<Rightarrow> ('re \<Rightarrow> string) \<Rightarrow> unit may_panic" where
  "test_config_serialization_roundtrip compile pattern = do {
     config \<leftarrow> deserialize_config compile (JObject [(''allow'', JString ''SENSOR_.*''), (''deny'', JString ''DEBUG_.*'')]);
     let json = serialize_config pattern config;
     assert_that (json_index json ''allow'' = JString ''SENSOR_.*'');
     assert_that (json_index json ''deny'' = JString ''DEBUG_.*'') }"

section \<open>Tests of the pruning\<close>

definition test_prune_below_threshold :: "unit may_panic" where
  "test_prune_below_threshold = do {
     let seqs = word_of_nat ` {0..<100};
     let seqs = prune_sent_sequences seqs 99;
     assert_that (card seqs = 100) }"

definition test_prune_above_threshold :: "unit may_panic" where
  "test_prune_above_threshold = do {
     let seqs = word_of_nat ` {0..<10001};
     let seqs = prune_sent_sequences seqs 10000;
     assert_that (card seqs \<le> 5001);
     assert_that (10000 \<in> seqs);
     assert_that (5000 \<in> seqs);
     assert_that (4999 \<notin> seqs) }"

definition test_prune_saturating_sub_at_zero :: "unit may_panic" where
  "test_prune_saturating_sub_at_zero = do {
     let seqs = word_of_nat ` {0..<10001};
     let seqs = prune_sent_sequences seqs 100;
     assert_that (card seqs = 10001) }"

definition test_prune_with_gaps :: "unit may_panic" where
  "test_prune_with_gaps = do {
     let seqs = word_of_nat ` {i \<in> {0..<20002}. even i};
     assert_that (card seqs = 10001);
     let latest = 20000;
     let seqs = prune_sent_sequences seqs latest;
     assert_that (\<forall>s \<in> seqs. 15000 \<le> s);
     assert_that (20000 \<in> seqs);
     assert_that (15000 \<in> seqs);
     assert_that (14998 \<notin> seqs) }"

definition test_prune_at_u32_max :: "unit may_panic" where
  "test_prune_at_u32_max = do {
     let seqs = fold (\<lambda>i. insert (0xFFFFFFFF - word_of_nat i)) [0..<10001] {};
     let seqs = prune_sent_sequences seqs 0xFFFFFFFF;
     assert_that (card seqs \<le> 5001);
     assert_that (0xFFFFFFFF \<in> seqs);
     assert_that (0xFFFFFFFF - 5000 \<in> seqs);
     assert_that (0xFFFFFFFF - 5001 \<notin> seqs) }"

section \<open>The model passes them\<close>

lemmas mapping_eval = lcm_channel_to_key_expr_def key_expr_to_lcm_channel_def key_expr_of_def
  contains_def strip_prefix_def Let_def assert_that_def

text \<open>The keys that zenoh has to accept; all are plain chunks joined by slashes.\<close>

definition test_keys :: "string list" where
  "test_keys =
    [''lcm/SENSOR_IMU'', ''robot/lcm/ROBOT_STATE'', ''lcm/sensors/imu''
     , ''mqtt/SENSOR'', ''lcm/12345'', ''lcm/A'', ''lcm/a/b/c/d/e'', ''lcm_extra/SENSOR'']"

lemma mapping_tests_pass:
  assumes "list_all valid_ke test_keys"
  shows "test_channel_to_key_expr valid_ke = Ret ()"
    and "test_channel_to_key_expr_custom_prefix valid_ke = Ret ()"
    and "test_channel_with_slash valid_ke = Ret ()"
    and "test_channel_with_wildcard_rejected valid_ke = Ret ()"
    and "test_empty_channel_rejected valid_ke = Ret ()"
    and "test_key_expr_to_channel valid_ke = Ret ()"
    and "test_key_expr_to_channel_hierarchical valid_ke = Ret ()"
    and "test_key_expr_wrong_prefix valid_ke = Ret ()"
    and "test_channel_with_hash_rejected valid_ke = Ret ()"
    and "test_channel_with_dollar_rejected valid_ke = Ret ()"
    and "test_channel_with_all_reserved_rejected valid_ke = Ret ()"
    and "test_channel_numeric_only valid_ke = Ret ()"
    and "test_channel_single_char valid_ke = Ret ()"
    and "test_channel_deeply_hierarchical valid_ke = Ret ()"
    and "test_key_expr_to_channel_prefix_mismatch_partial valid_ke = Ret ()"
  using assms
  by (simp_all add: test_keys_def test_channel_to_key_expr_def
      test_channel_to_key_expr_custom_prefix_def test_channel_with_slash_def
      test_channel_with_wildcard_rejected_def test_empty_channel_rejected_def
      test_key_expr_to_channel_def test_key_expr_to_channel_hierarchical_def
      test_key_expr_wrong_prefix_def test_channel_with_hash_rejected_def
      test_channel_with_dollar_rejected_def test_channel_with_all_reserved_rejected_def
      test_channel_numeric_only_def test_channel_single_char_def
      test_channel_deeply_hierarchical_def test_key_expr_to_channel_prefix_mismatch_partial_def mapping_eval)

lemmas config_eval = deserialize_config_def deserialize_fields_def field_def field_names_def
  deserialize_path_def PathVisitor_def is_allowed_def serialize_config_def serialize_allow_def
  serialize_deny_def index_def assert_that_def Let_def

lemma unfiltered_config_tests_pass:
  shows "test_default_config compile = Ret ()" and "test_path_field compile = Ret ()"
    and "test_path_field_as_array compile = Ret ()"
    and "test_unknown_field_rejected compile = Ret ()"
    and "test_custom_thread_settings compile = Ret ()"
    and "test_neither_allow_nor_deny compile is_match = Ret ()"
  by (simp_all add: test_default_config_def test_path_field_def test_path_field_as_array_def
      test_unknown_field_rejected_def test_custom_thread_settings_def
      test_neither_allow_nor_deny_def config_eval)

lemma filter_config_tests_pass:
  assumes "compile ''SENSOR_.*'' = Some sensor" "compile ''SENSOR_DEBUG'' = Some sensor_debug"
    "compile ''SENSOR_DEBUG.*'' = Some sensor_debug_any" "compile ''DEBUG_.*'' = Some debug"
    "compile ''[invalid'' = None"
    and "is_match sensor ''SENSOR_IMU''" "is_match sensor ''SENSOR_DEBUG''"
    "is_match sensor ''SENSOR_DEBUG_X''" "\<not> is_match sensor ''MOTOR_CMD''"
    and "is_match sensor_debug ''SENSOR_DEBUG''" "\<not> is_match sensor_debug ''SENSOR_IMU''"
    and "is_match sensor_debug_any ''SENSOR_DEBUG_X''" "\<not> is_match sensor_debug_any ''SENSOR_IMU''"
    and "is_match debug ''DEBUG_TEMP''" "\<not> is_match debug ''SENSOR_IMU''"
    and "pattern sensor = ''SENSOR_.*''" "pattern debug = ''DEBUG_.*''"
  shows "test_allow_deny compile is_match = Ret ()" and "test_deny_only compile is_match = Ret ()"
    and "test_allow_only compile is_match = Ret ()"
    and "test_allow_and_deny_overlap compile is_match = Ret ()"
    and "test_invalid_regex_rejected compile = Ret ()"
    and "test_config_serialization_roundtrip compile pattern = Ret ()"
  using assms
  by (simp_all add: test_allow_deny_def test_deny_only_def test_allow_only_def
      test_allow_and_deny_overlap_def test_invalid_regex_rejected_def
      test_config_serialization_roundtrip_def config_eval)

text \<open>Pruning a set of small numbers, in terms of natural numbers.\<close>

lemma card_words:
  assumes "A \<subseteq> {..<2 ^ 32}"
  shows "card ((word_of_nat :: nat \<Rightarrow> u32) ` A) = card A"
proof (rule card_image)
  from assms show "inj_on (word_of_nat :: nat \<Rightarrow> u32) A"
    by (auto intro!: inj_on_inverseI [where g = unat] simp: unat_of_nat take_bit_nat_eq_self)
qed

lemma word_in_words:
  assumes "A \<subseteq> {..<2 ^ 32}" and "n < 2 ^ 32"
  shows "(word_of_nat n :: u32) \<in> word_of_nat ` A \<longleftrightarrow> n \<in> A"
proof
  assume "(word_of_nat n :: u32) \<in> word_of_nat ` A"
  then obtain m where "m \<in> A" "(word_of_nat n :: u32) = word_of_nat m" by blast
  with assms show "n \<in> A"
    by (auto simp: word_of_nat_eq_iff take_bit_nat_eq_self subset_eq)
qed simp

lemma prune_words:
  assumes "A \<subseteq> {..<2 ^ 32}" and "n < 2 ^ 32" and "10000 < card A"
  shows "prune_sent_sequences (word_of_nat ` A) (word_of_nat n) = word_of_nat ` {a \<in> A. n - 5000 \<le> a}"
proof -
  have "unat (word_of_nat a :: u32) = a" if "a < 2 ^ 32" for a
    using that by (simp add: unat_of_nat take_bit_nat_eq_self)
  moreover from this [OF assms(2)]
  have "unat (u32_saturating_sub (word_of_nat n) 5000) = n - 5000"
    by (auto simp: u32_saturating_sub_def word_le_nat_alt unat_sub)
  ultimately have "u32_saturating_sub (word_of_nat n) 5000 \<le> word_of_nat a \<longleftrightarrow> n - 5000 \<le> a"
    if "a \<in> A" for a
    using that assms(1) by (auto simp: word_le_nat_alt)
  then show ?thesis
    using assms(3) by (auto simp: prune_sent_sequences_def card_words [OF assms(1)] Let_def)
qed

lemma prune_below_threshold_passes: "test_prune_below_threshold = Ret ()"
proof -
  have "card ((word_of_nat :: nat \<Rightarrow> u32) ` {0..<100}) = 100" by (subst card_words) auto
  then show ?thesis
    by (simp add: test_prune_below_threshold_def prune_sent_sequences_def assert_that_def Let_def)
qed

lemma prune_above_threshold_passes: "test_prune_above_threshold = Ret ()"
proof -
  let ?kept = "{a \<in> {0..<10001}. 10000 - 5000 \<le> a} :: nat set"
  have "{0..<10001} \<subseteq> {..<2 ^ 32 :: nat}" by auto
  from prune_words [OF this, of 10000]
  have "prune_sent_sequences (word_of_nat ` {0..<10001}) 10000 = word_of_nat ` ?kept" by simp
  moreover have kept: "?kept \<subseteq> {..<2 ^ 32}" by auto
  have "?kept = {5000..<10001}" by auto
  then have "card ((word_of_nat :: nat \<Rightarrow> u32) ` ?kept) \<le> 5001" using card_words [OF kept] by simp
  ultimately show ?thesis
    using word_in_words [OF kept, of 10000] word_in_words [OF kept, of 5000]
      word_in_words [OF kept, of 4999]
    by (simp add: test_prune_above_threshold_def assert_that_def Let_def)
qed

lemma prune_saturating_sub_at_zero_passes: "test_prune_saturating_sub_at_zero = Ret ()"
proof -
  let ?all = "{0..<10001} :: nat set"
  have all: "?all \<subseteq> {..<2 ^ 32}" by auto
  have "{a \<in> ?all. 100 - 5000 \<le> a} = ?all" by auto
  then have "prune_sent_sequences (word_of_nat ` ?all) 100 = word_of_nat ` ?all"
    using prune_words [OF all, of 100] by (simp only: of_nat_numeral) simp
  with card_words [OF all] show ?thesis
    by (simp add: test_prune_saturating_sub_at_zero_def assert_that_def Let_def)
qed

lemma card_evens: "card {i :: nat. i < 20002 \<and> even i} = 10001"
proof -
  have "{i :: nat. i < 20002 \<and> even i} = (*) 2 ` {0..<10001}"
    by (force elim!: evenE)
  then show ?thesis by (simp add: card_image inj_on_mult)
qed

lemma prune_with_gaps_passes: "test_prune_with_gaps = Ret ()"
proof -
  let ?evens = "{i \<in> {0..<20002}. even i} :: nat set"
  let ?kept = "{a \<in> ?evens. 20000 - 5000 \<le> a}"
  have evens: "?evens \<subseteq> {..<2 ^ 32}" and kept: "?kept \<subseteq> {..<2 ^ 32}" by auto
  have "prune_sent_sequences (word_of_nat ` ?evens) 20000 = word_of_nat ` ?kept"
    using prune_words [OF evens, of 20000] by (simp add: card_evens)
  moreover have "card ((word_of_nat :: nat \<Rightarrow> u32) ` ?evens) = 10001"
    using card_words [OF evens] card_evens by simp
  moreover have "\<forall>s \<in> (word_of_nat :: nat \<Rightarrow> u32) ` ?kept. 15000 \<le> s"
    by (auto simp: word_le_nat_alt unat_of_nat take_bit_nat_eq_self)
  ultimately show ?thesis
    using word_in_words [OF kept, of 20000] word_in_words [OF kept, of 15000]
      word_in_words [OF kept, of 14998]
    by (simp add: test_prune_with_gaps_def assert_that_def Let_def)
qed

lemma prune_at_u32_max_passes: "test_prune_at_u32_max = Ret ()"
proof -
  let ?top = "{4294957295..<4294967296} :: nat set"
  let ?kept = "{a \<in> ?top. 4294967295 - 5000 \<le> a}"
  have top: "?top \<subseteq> {..<2 ^ 32}" and kept: "?kept \<subseteq> {..<2 ^ 32}" by auto
  have "fold (\<lambda>i. insert (f i)) [0..<n] {} = f ` {0..<n}" for f :: "nat \<Rightarrow> u32" and n
    by (induction n) (auto simp: atLeastLessThanSuc)
  moreover have "(\<lambda>i. 0xFFFFFFFF - word_of_nat i :: u32) ` {0..<10001} = word_of_nat ` ?top"
  proof -
    have "(0xFFFFFFFF :: u32) - word_of_nat i = word_of_nat (4294967295 - i)" if "i < 10001" for i
      using that by (simp add: of_nat_diff)
    moreover have "(\<lambda>i. 4294967295 - i) ` {0..<10001} = ?top"
    proof (intro equalityI subsetI)
      fix a assume "a \<in> ?top"
      then have "a = 4294967295 - (4294967295 - a)" and "4294967295 - a \<in> {0..<10001}" by auto
      then show "a \<in> (\<lambda>i. 4294967295 - i) ` {0..<10001}" by blast
    qed auto
    ultimately show ?thesis by (metis (no_types, lifting) atLeastLessThan_iff image_cong image_image)
  qed
  moreover have "prune_sent_sequences (word_of_nat ` ?top) 0xFFFFFFFF = word_of_nat ` ?kept"
    using prune_words [OF top, of 4294967295] by simp
  moreover have "?kept = {4294962295..<4294967296}" by auto
  then have "card ((word_of_nat :: nat \<Rightarrow> u32) ` ?kept) \<le> 5001" using card_words [OF kept] by simp
  ultimately show ?thesis
    using word_in_words [OF kept, of 4294967295] word_in_words [OF kept, of 4294962295]
      word_in_words [OF kept, of 4294962294]
    by (simp add: test_prune_at_u32_max_def assert_that_def Let_def)
qed

end
