(* ===== verification/Spec2Isabelle.thy ===== *)
theory Spec2Isabelle
  imports Bridge_Progress Wire_Refinement Network Well_Typed Reassembly_Memory Local_Senders
    Plugin Cli
    Conformance_Protocol Conformance_Reassembly Conformance_Types Conformance_Multicast
    Conformance_Bridge Conformance_Plugin
begin

text \<open>
  \<^bold>\<open>A bridge between LCM and Zenoh: the model of zenoh-plugin-lcm and its theorems.\<close>

  \<^bold>\<open>The program.\<close> LCM applications exchange messages (a channel name, a 32-bit sequence number,
  bytes) over a UDP multicast group; Zenoh applications publish samples under key expressions. The
  repository has three crates. \<open>lcm-transport\<close> speaks the LCM wire protocol: datagrams are parsed
  and encoded in \<open>protocol.rs\<close>, large messages are put together from fragments in \<open>fragment.rs\<close>,
  \<open>multicast.rs\<close> owns the socket and sends and receives whole messages, \<open>types.rs\<close> has the
  message type and the \<open>udpm://\<close> URL. \<open>zenoh-plugin-lcm\<close> is the bridge: \<open>lib.rs\<close> reads the
  configuration (\<open>config.rs\<close>) and spawns two tasks, \<open>lcm_to_zenoh.rs\<close> and
  \<open>zenoh_to_lcm.rs\<close>, which share one transport and one set of recently sent sequence numbers, by
  which the first recognises the loopback of what the second sent; \<open>mapping.rs\<close> turns channels
  into keys and back. \<open>zenoh-bridge-lcm\<close> is the command line around the plugin.

  \<^bold>\<open>The theories\<close>, in the order they build on each other:
  \<^item> \<open>Prelude\<close>: machine integers as words (\<open>u8\<close>, \<open>u16\<close>, \<open>u32\<close>), \<open>usize\<close> as \<open>nat\<close> with
    its 64-bit limit written out where the code checks it (the unchecked additions of lengths and offsets in
    \<open>send\<close>, \<open>send_fragmented\<close> and \<open>process\<close> add sizes of buffers in memory, 32-bit fields and, in the
    loop, the MTU; they could reach it only with an MTU near it, where the plugin's is 1400), panics as \<open>None\<close> of \<open>may_panic\<close>, and
    Rust's indexing and slicing, which panic out of range.
  \<^item> \<open>Rust_Str\<close>: strings are the bytes of their UTF-8 encoding; validation, splitting, trimming,
    reading and writing of decimal numbers as the Rust standard library does them.
  \<^item> \<open>Interfaces\<close>: the contracts between components as locales. \<open>codec\<close> is interpreted by the
    wire protocol and by the key mapping, \<open>reliable_step\<close> by the reassembler, \<open>polling_step\<close> by
    the receive loop, \<open>sequence_filter\<close> by the set of sent numbers, \<open>preserved\<close> by the network of
    bridges, \<open>simulation\<close> by the bridge over datagrams.
  \<^item> \<open>Protocol\<close> (\<open>protocol.rs\<close>), \<open>Lcm_Types\<close> (\<open>types.rs\<close>), \<open>Reassembly\<close>
    (\<open>fragment.rs\<close>), \<open>Multicast\<close> (\<open>multicast.rs\<close>): the records, datatypes and operations of
    those files under the names they have there.
  \<^item> \<open>Reassembly_Refinement\<close>: the abstract specification of reassembly, a machine that remembers
    only which fragment numbers of a message it has seen, and the simulation of it by \<open>process\<close>.
  \<^item> \<open>Sending\<close>: the closed form of what \<open>send\<close> emits, and that it is a fragmentation of the
    message in the sense of the refinement. \<open>Delivery\<close>: from \<open>send\<close> to \<open>recv\<close>.
    \<open>In_Order\<close>: a stream of messages over a network that keeps order.
  \<^item> \<open>Key_Mapping\<close> (\<open>mapping.rs\<close>), \<open>Plugin_Config\<close> and \<open>Config_Json\<close> (\<open>config.rs\<close>):
    the mapping, the settings with the channel filter, and their reading and writing as JSON.
  \<^item> \<open>Zenoh_To_Lcm\<close> and \<open>Lcm_To_Zenoh\<close>: the two tasks, each as its loop over the events it gets.
  \<^item> \<open>Bridge\<close>: both tasks at once, as a step relation on whole messages in which the await points
    of the code are places where the other task may run. \<open>Bridge_Progress\<close>: how it gets on.
  \<^item> \<open>Wire_Bridge\<close>: the same over single datagrams, with the await points of \<open>send\<close> and \<open>recv\<close> and
    the reassembler in the state; without the other task in between, its steps are the loops of the
    two tasks. It also names the events that a run of either model shows. \<open>Wire_Datagrams\<close>, \<open>Wire_Simulation\<close> and
    \<open>Wire_Refinement\<close>: which datagram belongs to which message, the relation to the states of \<open>Bridge\<close>,
    and the refinement as inclusion of the events shown.
  \<^item> \<open>Network\<close>: several bridges and applications on one Zenoh network. As in the models of one bridge the
    environment of a run is an argument, and a theorem names the one it needs (\<open>network_orderly\<close>).
  \<^item> \<open>Reassembly_Memory\<close>: what the reassembler buffers at most, and at worst. \<open>Local_Senders\<close>: what it
    makes of the fragments of two transports on one host.
  \<^item> \<open>Well_Typed\<close>: the invariant that every channel the reassembler holds is a well-formed string,
    and what follows for the published keys.
  \<^item> \<open>Plugin\<close> (\<open>lib.rs\<close>) and \<open>Cli\<close> (\<open>main.rs\<close>): start-up, admin space, shutdown; the
    command line and the program.
  \<^item> \<open>Conformance_Protocol\<close>, \<open>Conformance_Reassembly\<close>, \<open>Conformance_Types\<close> and
    \<open>Conformance_Plugin\<close>: the unit tests of the source files, and in \<open>Conformance_Multicast\<close> and
    \<open>Conformance_Bridge\<close> the integration tests of the transport and of the plugin, transcribed as computations on the
    model, and the proof that they pass. They tie the model to the authors' own examples.

  \<^bold>\<open>State.\<close> The reassembler's hash map is a HOL map from sender and sequence number to a fragment
  set; \<open>process\<close> takes and returns the reassembler. The transport's atomic counter is a field of
  the transport, which \<open>send\<close> returns updated; what leaves the socket is the list \<open>wire\<close>. The
  shared set of sent numbers is a set of words. Errors are the left side of a sum, with the code's
  error cases as constructors; log messages are dropped.

  \<^bold>\<open>What is a parameter.\<close> The clock (each reading is an argument), the socket (\<open>os\<close> says which
  \<open>send_to\<close> fails, \<open>sock\<close> which option call fails, received datagrams are events), the regex
  engine (\<open>is_match\<close>, \<open>compile\<close>, \<open>pattern\<close>), the validity and the intersection of Zenoh key
  expressions (\<open>valid_ke\<close>, \<open>intersects\<close>), its routing (\<open>matches\<close>, \<open>reaches\<close>, \<open>delivers\<close>,
  \<open>declare_subscriber\<close>), clap, and the zenoh configuration (\<open>apply_call\<close>, with the laws \<open>holds_written\<close> and
  \<open>leaves_apart\<close> of writing to paths). Theorems that
  rely on their documented behaviour say so in a hypothesis.

  \<^bold>\<open>What the theorems show.\<close>
  \<^item> Wire format: the parser never panics and accepts exactly the encodings of well-formed packets.
  \<^item> Reassembly: the invariant of the fragment sets and every branch of \<open>process\<close>; in any order,
    with duplicates and foreign traffic in between, a message is delivered exactly when its last
    missing fragment arrives within the timeout, and its bytes are the sender's.
  \<^item> Sending: one sequence number per call, datagrams within the MTU that carry the message, up to the
    first that the socket refuses. End to end, \<open>recv\<close> returns what \<open>send\<close> was given, and a stream of
    messages arrives in order.
  \<^item> The tasks: neither panics; the one that polls needs no more rounds than there are events plus
    one, which is the fuel of \<open>lcm_to_zenoh_run\<close>, and more fuel changes nothing; what is
    published and what is sent; the channel filter in both directions; relaying is the identity.
  \<^item> Loop prevention: with both tasks interleaved in any way, nothing the bridge sent is published
    back, under the conditions spelt out in \<open>orderly\<close>. The same over single datagrams
    (\<open>wire_orderly\<close>), whatever the order in which fragments are sent, arrive, are lost and expire,
    by the refinement. The refinement itself needs only that datagrams are not duplicated or forged and
    numbers in use are not reused (\<open>faithful\<close>): every run over datagrams then sends, records, hears
    and handles what a run over messages does, in the same order.
  \<^item> Several bridges: on separate LCM groups, with each bridge in an orderly environment, nothing comes
    back to the group it came from and nothing is published twice; two on one group circulate a message for ever.
  \<^item> Progress: from a state that orderly steps reach, and in which no foreign message carries a number in
    use, the tasks can empty the group by receiving, and exactly the allowed foreign messages are
    published, in order. Typing: every published key is a
    well-formed string that Zenoh accepts, whatever datagrams arrive.
  \<^item> Start-up, shutdown and command line: exactly which JSON is a configuration; which socket calls are
    made, which errors end the plugin and what the tasks start with; a thread number of zero panics;
    after a shutdown neither task runs; the options given on the command line win over the file and leave the
    rest of it; the program serves only with a runtime that has the LCM plugin.
  \<^item> Where the conditions of loop prevention fail the code does not do what it means to, and theorems show it: the
    race between send and record, the collision of numbers of two senders, pruning after the counter
    wraps; the reassembler mixes the messages of two transports on one host, and buffers the maximum
    message size for any datagram of 20 bytes. Further limits that are stated as theorems: fragment counts beyond 16 bits, NUL in a
    channel name, the channel name of a rejected fragment, the empty deny pattern, an interface that
    is not an address.

  \<^bold>\<open>Bounds and termination.\<close> \<open>send_loop\<close> ends by the measure of the fragments left;
  \<open>strip_any\<close> by the length of the text; \<open>recv\<close> and the tasks are structural on the list of
  events, and waiting for an event that does not come is the value \<open>Waiting\<close>.

  The environment of the datagram-level model excludes channel names that \<open>send\<close> garbles, messages
  beyond 65535 fragments and the reuse of a number whose datagrams are still about, each of which has
  a theorem of its own or is a restriction of the network.

  \<^bold>\<open>What is not modelled.\<close> Logging; the outcome of a put, which the code only logs; the point inside
  a task at which an abort takes effect; the build script; the one unit test that only tests zenoh.
  Memory other than the reassembly buffers, and the time an operation takes, are not part of the model.
\<close>

section \<open>Two bridges in a row\<close>

text \<open>Claim C13. A message crosses two bridges unchanged: what one bridge publishes to Zenoh for an LCM
  message, the other, with the same key prefix, sends to its own group as exactly the datagrams of
  the original channel and bytes, under its own sequence number, which it records.\<close>

theorem relayed_unchanged:
  assumes "snd (l2z_handle is_match valid_ke config seqs msg) = Published ke data"
    and "z2l_iter is_match' os config' st (ke, data) = Ret (st', Sent n)"
    and "key_prefix config' = key_prefix config"
  shows "n = sequence_counter (z_transport st) \<and> n \<in> z_sent st' \<and>
    wire (z_net st') = wire (z_net st) @ map (Pair (multicast_addr (z_transport st)))
      (datagrams (fragment_mtu (z_transport st)) n (msg_channel msg) (msg_data msg))"
proof -
  have "ke = key_prefix config @ ''/'' @ msg_channel msg" "data = msg_data msg"
    using assms(1) unfolding snd_eq_iff l2z_handle_published_iff by blast+
  with z2l_sent [OF assms(2)] assms(3) show ?thesis by auto
qed

theorem relayed_unchanged_witness:
  "\<exists>st'. snd (l2z_handle (\<lambda>_ _. True) (\<lambda>_. True) (Config_default :: unit Config) {3}
        \<lparr>msg_channel = ''CH'', msg_sequence_number = 9, msg_data = [1]\<rparr>) =
      (Published ''lcm/CH'' [1] :: nat l2z_outcome) \<and>
    z2l_iter (\<lambda>_ _. True) (\<lambda>_ _. None :: nat option) (Config_default :: unit Config)
      \<lparr>z_transport = example_transport, z_net = \<lparr>attempts = 0, wire = []\<rparr>, z_sent = {}\<rparr>
      (''lcm/CH'', [1]) = Ret (st', Sent 7) \<and>
    wire (z_net st') = map (Pair (multicast_addr example_transport)) (datagrams 33 7 ''CH'' [1])"
proof -
  have pub: "snd (l2z_handle (\<lambda>_ _. True) (\<lambda>_. True) (Config_default :: unit Config) {3}
        \<lparr>msg_channel = ''CH'', msg_sequence_number = 9, msg_data = [1]\<rparr>) =
      (Published ''lcm/CH'' [1] :: nat l2z_outcome)"
    unfolding snd_eq_iff l2z_handle_published_iff
    by (simp add: is_allowed_def Config_default_def DEFAULT_KEY_PREFIX_def plain_channel_def)
  from relayed_unchanged [OF pub example_sample refl] pub example_sample show ?thesis
    by (auto simp: example_transport_def)
qed

end
